theory Spec2Isabelle
  imports Complex_Main "HOL-Library.Multiset"
begin

section \<open>BaseButton: the computed \<open>rel\<close> attribute\<close>

text \<open>
  The props of the BaseButton component that \<open>newRel\<close> reads. Both are declared with
  type \<open>String\<close> and no default, so an absent prop is \<open>undefined\<close>, modelled as \<open>None\<close>.
\<close>

record BaseButton =
  href :: "string option"
  target :: "string option"
  rel :: "string option"

text \<open>JavaScript truthiness of an optional string: \<open>undefined\<close> and \<open>""\<close> are falsy.\<close>

fun truthy_str :: "string option \<Rightarrow> bool" where
  "truthy_str None = False"
| "truthy_str (Some s) = (s \<noteq> [])"

text \<open>\<open>a || b\<close> on optional strings: the left operand when it is truthy, else the right one.\<close>

definition js_or :: "string option \<Rightarrow> string option \<Rightarrow> string option" where
  "js_or a b = (if truthy_str a then a else b)"

text \<open>
  \<^verbatim>\<open>
  newRel() {
    if (this.target === "_blank") {
      return this.rel || "noopener";
    }
    return this.rel;
  }
  \<close>
\<close>

definition newRel :: "BaseButton \<Rightarrow> string option" where
  "newRel this =
     (if target this = Some ''_blank'' then js_or (rel this) (Some ''noopener'')
      else rel this)"

section \<open>JavaScript values of the table component\<close>

text \<open>
  A number is NaN, an infinity, or a finite number, modelled by the rational it
  denotes (the two zeros are one). The primitive values are \<open>undefined\<close>, \<open>null\<close>, the
  booleans, the numbers and the strings; a string is a sequence of UTF-16 code units
  below 256. Symbols and BigInts are not modelled.
\<close>

datatype jsnum = NaN | NegInfinity | Finite rat | PosInfinity

datatype prim = JUndefined | JNull | JBool bool | JNum jsnum | JStr string

text \<open>
  An object that occurs as the value of a field is modelled by what the component can
  observe of it: its identity, whether \<open>Object.prototype.toString.call\<close> gives
  \<open>"[object Object]"\<close> for it, the string its \<open>toString()\<close> returns, the primitive it
  converts to in a comparison, and the values of its properties, own or inherited
  (\<open>undefined\<close> where it has none). All of these are taken to be free of side effects and
  not to throw.
\<close>

datatype obj =
  Object (obj_ident: nat) (obj_plain: bool) (obj_toString: string) (obj_primitive: prim)
    (obj_get: "string \<Rightarrow> jsval")
and jsval = Prim prim | Obj obj

text \<open>
  A row of the table is an object too; the component only reads its properties:
  \<open>item_get it key\<close> is \<open>item[key]\<close>, looked up through the prototype chain.
\<close>

datatype item = Item (item_ident: nat) (item_get: "string \<Rightarrow> jsval")

datatype js_error = TypeError

definition prop_key :: "string option \<Rightarrow> string" where
  \<comment> \<open>the property key of \<open>x[k]\<close>: an \<open>undefined\<close> key is the string \<open>"undefined"\<close>\<close>
  "prop_key k = (case k of None \<Rightarrow> ''undefined'' | Some s \<Rightarrow> s)"

text \<open>
  What the language leaves to the engine, or what is not modelled here, is a parameter:
  the conversion of a string to a number, the decimal form of a finite number that is
  not a safe integer, and the order in which \<open>Array.prototype.sort\<close> leaves an array
  whose comparator is not consistent.
\<close>

record engine =
  StringToNumber :: "string \<Rightarrow> jsnum"
  NumberToString :: "rat \<Rightarrow> string"
  sort_order :: "(item \<Rightarrow> item \<Rightarrow> int) \<Rightarrow> item list \<Rightarrow> item list"

subsection \<open>Strings\<close>

definition digit_char :: "nat \<Rightarrow> char" where
  "digit_char d = char_of (48 + d)"

fun nat_toString :: "nat \<Rightarrow> string" where
  "nat_toString n =
     (if n < 10 then [digit_char n] else nat_toString (n div 10) @ [digit_char (n mod 10)])"

declare nat_toString.simps [simp del]

definition int_toString :: "int \<Rightarrow> string" where
  "int_toString i = (if i < 0 then CHR ''-'' # nat_toString (nat (- i)) else nat_toString (nat i))"

definition safe_integer :: "rat \<Rightarrow> bool" where
  \<comment> \<open>an integer of magnitude at most \<open>2^53 - 1\<close>: its decimal form is its digits\<close>
  "safe_integer r = (of_int \<lfloor>r\<rfloor> = r \<and> \<bar>r\<bar> \<le> 9007199254740991)"

fun number_toString :: "engine \<Rightarrow> jsnum \<Rightarrow> string" where
  "number_toString eng NaN = ''NaN''"
| "number_toString eng NegInfinity = ''-Infinity''"
| "number_toString eng PosInfinity = ''Infinity''"
| "number_toString eng (Finite r) =
     (if safe_integer r then int_toString \<lfloor>r\<rfloor> else NumberToString eng r)"

fun prim_toString :: "engine \<Rightarrow> prim \<Rightarrow> js_error + string" where
  \<comment> \<open>\<open>v.toString()\<close>: reading a property of \<open>undefined\<close> or \<open>null\<close> throws\<close>
  "prim_toString eng JUndefined = Inl TypeError"
| "prim_toString eng JNull = Inl TypeError"
| "prim_toString eng (JBool b) = Inr (if b then ''true'' else ''false'')"
| "prim_toString eng (JNum n) = Inr (number_toString eng n)"
| "prim_toString eng (JStr s) = Inr s"

fun toString :: "engine \<Rightarrow> jsval \<Rightarrow> js_error + string" where
  "toString eng (Prim p) = prim_toString eng p"
| "toString eng (Obj ob) = Inr (obj_toString ob)"

definition lower_char :: "char \<Rightarrow> char" where
  \<comment> \<open>A-Z and the Latin-1 capitals (all of 192..222 but the multiplication sign 215)\<close>
  "lower_char c =
     (let n = (of_char c :: nat)
      in if (65 \<le> n \<and> n \<le> 90) \<or> (192 \<le> n \<and> n \<le> 222 \<and> n \<noteq> 215)
         then char_of (n + 32) else c)"

definition toLowerCase :: "string \<Rightarrow> string" where
  "toLowerCase s = map lower_char s"

fun startsWith :: "string \<Rightarrow> string \<Rightarrow> bool" where
  "startsWith s [] = True"
| "startsWith [] (n # ns) = False"
| "startsWith (c # cs) (n # ns) = (c = n \<and> startsWith cs ns)"

fun str_includes :: "string \<Rightarrow> string \<Rightarrow> bool" where
  \<comment> \<open>\<open>s.includes(needle)\<close>: the needle occurs somewhere in \<open>s\<close>\<close>
  "str_includes [] needle = (needle = [])"
| "str_includes (c # cs) needle = (startsWith (c # cs) needle \<or> str_includes cs needle)"

subsection \<open>Comparisons\<close>

fun str_lt :: "string \<Rightarrow> string \<Rightarrow> bool" where
  \<comment> \<open>two strings compare by code units, a proper prefix being smaller\<close>
  "str_lt [] [] = False"
| "str_lt [] (b # bs) = True"
| "str_lt (a # as) [] = False"
| "str_lt (a # as) (b # bs) =
     ((of_char a :: nat) < of_char b \<or> (a = b \<and> str_lt as bs))"

fun num_lt :: "jsnum \<Rightarrow> jsnum \<Rightarrow> bool" where
  \<comment> \<open>\<open>m < n\<close> on numbers: false as soon as one of them is NaN\<close>
  "num_lt NaN n = False"
| "num_lt m NaN = False"
| "num_lt NegInfinity NegInfinity = False"
| "num_lt NegInfinity n = True"
| "num_lt m NegInfinity = False"
| "num_lt PosInfinity n = False"
| "num_lt m PosInfinity = True"
| "num_lt (Finite r) (Finite s) = (r < s)"

text \<open>
  \<open>x < y\<close> first turns both operands into primitives. Two strings compare as strings.
  Otherwise both become numbers, a string through the engine's conversion, and the
  numbers are compared.
\<close>

fun ToPrimitive :: "jsval \<Rightarrow> prim" where
  "ToPrimitive (Prim p) = p"
| "ToPrimitive (Obj ob) = obj_primitive ob"

fun ToNumber :: "engine \<Rightarrow> prim \<Rightarrow> jsnum" where
  "ToNumber eng JUndefined = NaN"
| "ToNumber eng JNull = Finite 0"
| "ToNumber eng (JBool b) = Finite (if b then 1 else 0)"
| "ToNumber eng (JNum n) = n"
| "ToNumber eng (JStr s) = StringToNumber eng s"

fun prim_lt :: "engine \<Rightarrow> prim \<Rightarrow> prim \<Rightarrow> bool" where
  "prim_lt eng (JStr s) (JStr t) = str_lt s t"
| "prim_lt eng p q = num_lt (ToNumber eng p) (ToNumber eng q)"

definition js_lt :: "engine \<Rightarrow> jsval \<Rightarrow> jsval \<Rightarrow> bool" where
  \<comment> \<open>\<open>x < y\<close>; \<open>x > y\<close> is \<open>js_lt eng y x\<close>\<close>
  "js_lt eng x y = prim_lt eng (ToPrimitive x) (ToPrimitive y)"

fun strict_eq :: "jsval \<Rightarrow> jsval \<Rightarrow> bool" where
  \<comment> \<open>\<open>x === y\<close>: NaN equals nothing, objects are equal when they are the same object\<close>
  "strict_eq (Prim p) (Prim q) = (p = q \<and> p \<noteq> JNum NaN)"
| "strict_eq (Obj a) (Obj b) = (obj_ident a = obj_ident b)"
| "strict_eq x y = False"

fun same_value_zero :: "jsval \<Rightarrow> jsval \<Rightarrow> bool" where
  \<comment> \<open>the comparison of \<open>Array.prototype.includes\<close>: as \<open>===\<close>, but NaN equals NaN\<close>
  "same_value_zero (Prim p) (Prim q) = (p = q)"
| "same_value_zero (Obj a) (Obj b) = (obj_ident a = obj_ident b)"
| "same_value_zero x y = False"

subsection \<open>Arrays: \<open>filter\<close> and \<open>sort\<close>\<close>

text \<open>\<open>xs.filter(p)\<close> where the callback may throw: the first exception ends the call.\<close>

fun js_filter :: "('a \<Rightarrow> js_error + bool) \<Rightarrow> 'a list \<Rightarrow> js_error + 'a list" where
  "js_filter p [] = Inr []"
| "js_filter p (x # xs) =
     (case p x of
        Inl e \<Rightarrow> Inl e
      | Inr b \<Rightarrow> (case js_filter p xs of
                    Inl e \<Rightarrow> Inl e
                  | Inr ys \<Rightarrow> Inr (if b then x # ys else ys)))"

text \<open>
  A comparator is consistent for the elements of an array, in the words of the language
  standard, when on them \<open>cmp a a\<close> is zero, being equal (\<open>cmp\<close> zero) is symmetric and
  transitive, and being smaller (\<open>cmp\<close> negative) and being greater (\<open>cmp\<close> positive) are
  transitive.
\<close>

definition consistent :: "('a \<Rightarrow> 'a \<Rightarrow> int) \<Rightarrow> 'a list \<Rightarrow> bool" where
  "consistent cmp xs =
     ((\<forall>a\<in>set xs. cmp a a = 0)
      \<and> (\<forall>a\<in>set xs. \<forall>b\<in>set xs. cmp a b = 0 \<longrightarrow> cmp b a = 0)
      \<and> (\<forall>a\<in>set xs. \<forall>b\<in>set xs. \<forall>c\<in>set xs. cmp a b = 0 \<and> cmp b c = 0 \<longrightarrow> cmp a c = 0)
      \<and> (\<forall>a\<in>set xs. \<forall>b\<in>set xs. \<forall>c\<in>set xs. cmp a b < 0 \<and> cmp b c < 0 \<longrightarrow> cmp a c < 0)
      \<and> (\<forall>a\<in>set xs. \<forall>b\<in>set xs. \<forall>c\<in>set xs. cmp a b > 0 \<and> cmp b c > 0 \<longrightarrow> cmp a c > 0))"

text \<open>
  The stable sort: insertion from the right, an element going before the first one it
  does not compare greater than.
\<close>

fun insert_by :: "('a \<Rightarrow> 'a \<Rightarrow> int) \<Rightarrow> 'a \<Rightarrow> 'a list \<Rightarrow> 'a list" where
  "insert_by cmp x [] = [x]"
| "insert_by cmp x (y # ys) = (if cmp x y \<le> 0 then x # y # ys else y # insert_by cmp x ys)"

fun stable_sort :: "('a \<Rightarrow> 'a \<Rightarrow> int) \<Rightarrow> 'a list \<Rightarrow> 'a list" where
  "stable_sort cmp [] = []"
| "stable_sort cmp (x # xs) = insert_by cmp x (stable_sort cmp xs)"

text \<open>
  \<open>xs.sort(cmp)\<close> on an array of rows, by the language standard from ECMAScript 2019
  on: with a comparator that is consistent for the elements the sort is stable, and
  every stable sort returns the same array; with any other comparator the order is
  implementation-defined, the engine's.
\<close>

definition js_sort :: "engine \<Rightarrow> (item \<Rightarrow> item \<Rightarrow> int) \<Rightarrow> item list \<Rightarrow> item list" where
  "js_sort eng cmp xs = (if consistent cmp xs then stable_sort cmp xs else sort_order eng cmp xs)"

section \<open>BaseTableInfo: filtering and sorting the rows\<close>

text \<open>
  An option of a column filter, as \<open>matchFilters\<close> reads it: a number, a string or a
  boolean, or an object \<open>{key, value}\<close> whose key is a string. \<open>undefined\<close> and \<open>null\<close> are
  not options.
\<close>

datatype fopt = FNum jsnum | FStr string | FBool bool | FPair string jsval

record column =
  name :: string
  field :: "string option"

text \<open>
  The component instance \<open>this\<close>: the props \<open>data\<close>, \<open>searchOn\<close>, \<open>sortedOrder\<close>
  (default \<open>"desc"\<close>), \<open>sortedByField\<close>, \<open>querySearch\<close>, and the data fields
  \<open>sortOrder\<close>, \<open>sortedBy\<close>, \<open>filters\<close>. A prop of type \<open>String\<close> that is not passed is
  \<open>undefined\<close>, modelled as \<open>None\<close>.
\<close>

record BaseTableInfo =
  data :: "item list"
  searchOn :: "string option"
  sortedOrder :: string
  sortedByField :: "string option"
  querySearch :: "string option"
  sortOrder :: string
  sortedBy :: "string option"
  filters :: "(string \<times> fopt list) list"

text \<open>
  \<^verbatim>\<open>
  const matchSearch = (item) => {
    if (this.querySearch === undefined) { return true; }
    const querySearch = this.querySearch.toLowerCase();
    if (this.searchOn) {
      return item[this.searchOn].toString().toLowerCase().includes(querySearch);
    }
    return false;
  };
  \<close>
\<close>

definition matchSearch :: "engine \<Rightarrow> BaseTableInfo \<Rightarrow> item \<Rightarrow> js_error + bool" where
  "matchSearch eng this it =
     (case querySearch this of
        None \<Rightarrow> Inr True
      | Some q \<Rightarrow>
          (let querySearch = toLowerCase q
           in if truthy_str (searchOn this)
              then (case toString eng (item_get it (prop_key (searchOn this))) of
                      Inl e \<Rightarrow> Inl e
                    | Inr s \<Rightarrow> Inr (str_includes (toLowerCase s) querySearch))
              else Inr False))"

text \<open>
  \<^verbatim>\<open>
  const matchFilters = (item) => {
    if (this.filters) {
      return Object.keys(this.filters).every((key) => {
        if (this.isObject(item[key])) {
          return this.filters[key].find(
            (filter) => filter.value === item[key][filter.key]);
        }
        return this.filters[key].includes(item[key]);
      });
    }
    return true;
  };
  \<close>
  \<open>this.filters\<close> is always an object, hence truthy. On a primitive option,
  \<open>filter.value\<close> and \<open>filter.key\<close> are \<open>undefined\<close>, so the option is compared with
  the property \<open>"undefined"\<close> of the item's value. What \<open>find\<close> returns is read as a
  boolean by \<open>every\<close>: an object is truthy, a primitive may not be.
\<close>

fun option_value :: "fopt \<Rightarrow> jsval" where
  \<comment> \<open>\<open>filter.value\<close>\<close>
  "option_value (FPair k v) = v"
| "option_value f = Prim JUndefined"

fun option_key :: "fopt \<Rightarrow> string" where
  \<comment> \<open>\<open>filter.key\<close>, as a property key\<close>
  "option_key (FPair k v) = k"
| "option_key f = ''undefined''"

fun fopt_truthy :: "fopt \<Rightarrow> bool" where
  "fopt_truthy (FNum n) = (n \<noteq> NaN \<and> n \<noteq> Finite 0)"
| "fopt_truthy (FStr s) = (s \<noteq> [])"
| "fopt_truthy (FBool b) = b"
| "fopt_truthy (FPair k v) = True"

fun includes_option :: "jsval \<Rightarrow> fopt \<Rightarrow> bool" where
  \<comment> \<open>the option is the searched value, for \<open>includes\<close>; an option object is no item value\<close>
  "includes_option v (FNum n) = same_value_zero (Prim (JNum n)) v"
| "includes_option v (FStr s) = same_value_zero (Prim (JStr s)) v"
| "includes_option v (FBool b) = same_value_zero (Prim (JBool b)) v"
| "includes_option v (FPair k w) = False"

definition isObject :: "jsval \<Rightarrow> bool" where
  \<comment> \<open>\<open>Object.prototype.toString.call(obj) === "[object Object]"\<close>\<close>
  "isObject v = (case v of Prim p \<Rightarrow> False | Obj ob \<Rightarrow> obj_plain ob)"

definition filters_get :: "(string \<times> fopt list) list \<Rightarrow> string \<Rightarrow> fopt list" where
  \<comment> \<open>\<open>this.filters[key]\<close> for a key of \<open>Object.keys(this.filters)\<close>\<close>
  "filters_get fs key = (case map_of fs key of None \<Rightarrow> [] | Some os \<Rightarrow> os)"

definition matchFilter :: "BaseTableInfo \<Rightarrow> item \<Rightarrow> string \<Rightarrow> bool" where
  "matchFilter this it key =
     (case item_get it key of
        Obj ob \<Rightarrow>
          (if isObject (Obj ob)
           then (case find (\<lambda>f. strict_eq (option_value f) (obj_get ob (option_key f)))
                        (filters_get (filters this) key) of
                   None \<Rightarrow> False
                 | Some f \<Rightarrow> fopt_truthy f)
           else list_ex (includes_option (Obj ob)) (filters_get (filters this) key))
      | Prim p \<Rightarrow> list_ex (includes_option (Prim p)) (filters_get (filters this) key))"

definition matchFilters :: "BaseTableInfo \<Rightarrow> item \<Rightarrow> bool" where
  "matchFilters this it = list_all (matchFilter this it) (map fst (filters this))"

text \<open>
  \<^verbatim>\<open>
  const itemComparator = (a, b) => {
    const modifier = this.sortedOrder === "desc" ? -1 : 1;
    if (a[this.sortedBy] < b[this.sortedBy]) return -1 * modifier;
    if (a[this.sortedBy] > b[this.sortedBy]) return 1 * modifier;
    return 0;
  };
  \<close>
\<close>

definition modifier :: "BaseTableInfo \<Rightarrow> int" where
  "modifier this = (if sortedOrder this = ''desc'' then - 1 else 1)"

definition sort_key :: "BaseTableInfo \<Rightarrow> item \<Rightarrow> jsval" where
  \<comment> \<open>\<open>a[this.sortedBy]\<close>\<close>
  "sort_key this a = item_get a (prop_key (sortedBy this))"

definition itemComparator :: "engine \<Rightarrow> BaseTableInfo \<Rightarrow> item \<Rightarrow> item \<Rightarrow> int" where
  "itemComparator eng this a b =
     (if js_lt eng (sort_key this a) (sort_key this b) then - 1 * modifier this
      else if js_lt eng (sort_key this b) (sort_key this a) then 1 * modifier this
      else 0)"

text \<open>
  \<^verbatim>\<open>
  filteredResults() {
    ...
    const results = this.data.filter(matchSearch).filter(matchFilters);
    return results.sort(itemComparator);
  },
  tableIsEmpty() {
    return this.filteredResults && this.filteredResults.length === 0;
  },
  \<close>
  An array is truthy, so \<open>tableIsEmpty\<close> is the test of the length.
\<close>

definition filteredResults :: "engine \<Rightarrow> BaseTableInfo \<Rightarrow> js_error + item list" where
  "filteredResults eng this =
     (case js_filter (matchSearch eng this) (data this) of
        Inl e \<Rightarrow> Inl e
      | Inr searched \<Rightarrow>
          (let results = filter (matchFilters this) searched
           in Inr (js_sort eng (itemComparator eng this) results)))"

definition tableIsEmpty :: "engine \<Rightarrow> BaseTableInfo \<Rightarrow> js_error + bool" where
  "tableIsEmpty eng this =
     (case filteredResults eng this of
        Inl e \<Rightarrow> Inl e
      | Inr rs \<Rightarrow> Inr (length rs = 0))"

text \<open>
  \<^verbatim>\<open>
  sort(column) {
    this.$emit("sort-column", column.field, this.sortOrder);
    this.sortedBy = column.field;
    if (column.field === this.sortedBy) {
      this.sortOrder = this.sortOrder === "asc" ? "desc" : "asc";
    }
  },
  \<close>
  The method returns the emitted event and the updated instance.
\<close>

datatype emitted = SortColumn "string option" string

definition sort_method :: "column \<Rightarrow> BaseTableInfo \<Rightarrow> emitted \<times> BaseTableInfo" where
  "sort_method col this =
     (let ev = SortColumn (field col) (sortOrder this);
          this1 = this\<lparr>sortedBy := field col\<rparr>;
          this2 = (if field col = sortedBy this1
                   then this1\<lparr>sortOrder := (if sortOrder this1 = ''asc'' then ''desc'' else ''asc'')\<rparr>
                   else this1)
      in (ev, this2))"

subsection \<open>The table's behaviour in words\<close>

text \<open>
  \<open>String(v)\<close>, which unlike \<open>v.toString()\<close> is defined on \<open>undefined\<close> and \<open>null\<close>.
\<close>

fun js_String :: "engine \<Rightarrow> jsval \<Rightarrow> string" where
  "js_String eng (Prim JUndefined) = ''undefined''"
| "js_String eng (Prim JNull) = ''null''"
| "js_String eng (Prim (JBool b)) = (if b then ''true'' else ''false'')"
| "js_String eng (Prim (JNum n)) = number_toString eng n"
| "js_String eng (Prim (JStr s)) = s"
| "js_String eng (Obj ob) = obj_toString ob"

text \<open>
  The search predicate as the specification words it: an item passes iff \<open>querySearch\<close>
  is undefined, or \<open>searchOn\<close> is set (a non-empty string) and
  \<open>String(item[searchOn]).toLowerCase()\<close> contains \<open>querySearch.toLowerCase()\<close>.
\<close>

definition spec_matchSearch :: "engine \<Rightarrow> BaseTableInfo \<Rightarrow> item \<Rightarrow> bool" where
  "spec_matchSearch eng this it =
     (case querySearch this of
        None \<Rightarrow> True
      | Some q \<Rightarrow>
          truthy_str (searchOn this)
          \<and> str_includes (toLowerCase (js_String eng (item_get it (prop_key (searchOn this)))))
               (toLowerCase q))"

text \<open>
  A column filter matches an item's value \<open>v\<close> as follows. When \<open>v\<close> is a plain object,
  take the first selected option whose value strictly equals the property of \<open>v\<close> that
  the option's key names: there is one, and it is truthy. Otherwise \<open>v\<close> is one of the
  selected options. Every active column filter matches the item when this holds of
  every filtered column, with the options selected for it and the item's value there.
\<close>

definition selects :: "jsval \<Rightarrow> fopt \<Rightarrow> bool" where
  "selects v f =
     (case v of
        Prim p \<Rightarrow> False
      | Obj ob \<Rightarrow> strict_eq (option_value f) (obj_get ob (option_key f)))"

definition spec_filter_matches :: "fopt list \<Rightarrow> jsval \<Rightarrow> bool" where
  "spec_filter_matches options v =
     (if isObject v
      then (\<exists>i\<in>set [0..<length options].
              selects v (options ! i) \<and> fopt_truthy (options ! i)
              \<and> (\<forall>j\<in>set [0..<i]. \<not> selects v (options ! j)))
      else (\<exists>f\<in>set options. includes_option v f))"

definition spec_matchFilters :: "BaseTableInfo \<Rightarrow> item \<Rightarrow> bool" where
  "spec_matchFilters this it =
     (\<forall>key\<in>set (map fst (filters this)).
        spec_filter_matches (filters_get (filters this) key) (item_get it key))"

definition spec_passing :: "engine \<Rightarrow> BaseTableInfo \<Rightarrow> item list" where
  \<comment> \<open>the data filtered by the search predicate, then by the column filters\<close>
  "spec_passing eng this =
     filter (spec_matchFilters this) (filter (spec_matchSearch eng this) (data this))"

text \<open>
  The search reaches \<open>item[searchOn].toString()\<close> on an item whose value there is
  \<open>undefined\<close> or \<open>null\<close>.
\<close>

fun nullish :: "jsval \<Rightarrow> bool" where
  "nullish (Prim JUndefined) = True"
| "nullish (Prim JNull) = True"
| "nullish v = False"

definition search_raises :: "BaseTableInfo \<Rightarrow> bool" where
  "search_raises this =
     (querySearch this \<noteq> None \<and> truthy_str (searchOn this)
      \<and> list_ex (\<lambda>it. nullish (item_get it (prop_key (searchOn this)))) (data this))"

text \<open>
  Values that \<open><\<close> orders consistently, by the primitive they convert to: strings among
  themselves; numbers other than NaN among themselves, \<open>null\<close> and the booleans counting
  as numbers; and \<open>undefined\<close> and NaN, which compare false with everything.
\<close>

datatype kind = StringKind | NumberKind | UnorderedKind

fun prim_kind :: "prim \<Rightarrow> kind" where
  "prim_kind JUndefined = UnorderedKind"
| "prim_kind (JNum NaN) = UnorderedKind"
| "prim_kind (JStr s) = StringKind"
| "prim_kind p = NumberKind"

definition kind_of :: "jsval \<Rightarrow> kind" where
  "kind_of v = prim_kind (ToPrimitive v)"

fun same_kind :: "jsval list \<Rightarrow> bool" where
  "same_kind [] = True"
| "same_kind (k # ks) = list_all (\<lambda>k'. kind_of k' = kind_of k) ks"

definition descending :: "engine \<Rightarrow> BaseTableInfo \<Rightarrow> item list \<Rightarrow> bool" where
  \<comment> \<open>no row is followed by one with a greater sort value\<close>
  "descending eng this rs =
     sorted_wrt (\<lambda>a b. \<not> js_lt eng (sort_key this a) (sort_key this b)) rs"

definition ascending :: "engine \<Rightarrow> BaseTableInfo \<Rightarrow> item list \<Rightarrow> bool" where
  \<comment> \<open>no row is followed by one with a smaller sort value\<close>
  "ascending eng this rs =
     sorted_wrt (\<lambda>a b. \<not> js_lt eng (sort_key this b) (sort_key this a)) rs"

definition permuting :: "engine \<Rightarrow> bool" where
  \<comment> \<open>the engine's sort rearranges the array, whatever the comparator\<close>
  "permuting eng = (\<forall>cmp xs. mset (sort_order eng cmp xs) = mset xs)"

fun the_str :: "prim \<Rightarrow> string" where
  "the_str (JStr s) = s"
| "the_str p = []"

subsection \<open>Example tables\<close>

text \<open>
  The property lookup of an object that has the listed properties and no other, own or
  inherited, and a row with such a lookup.
\<close>

definition props :: "(string \<times> jsval) list \<Rightarrow> string \<Rightarrow> jsval" where
  "props ps k = (case map_of ps k of None \<Rightarrow> Prim JUndefined | Some v \<Rightarrow> v)"

definition row_alpha :: item where
  "row_alpha = Item 1 (props [(''id'', Prim (JNum (Finite 1))), (''name'', Prim (JStr ''Alpha'')),
                             (''records'', Prim (JNum (Finite 5))),
                             (''workspace'', Prim (JStr ''team''))])"

definition row_beta :: item where
  "row_beta = Item 2 (props [(''id'', Prim (JNum (Finite 2))), (''name'', Prim (JStr ''beta'')),
                            (''records'', Prim (JNum (Finite 7))),
                            (''workspace'', Prim (JStr ''team''))])"

definition row_alphabet :: item where
  "row_alphabet = Item 3 (props [(''id'', Prim (JNum (Finite 3))),
                                (''name'', Prim (JStr ''alphabet'')),
                                (''records'', Prim (JNum (Finite 5))),
                                (''workspace'', Prim (JStr ''lab''))])"

definition row_gamma :: item where
  "row_gamma = Item 4 (props [(''id'', Prim (JNum (Finite 4))), (''name'', Prim (JStr ''Gamma'')),
                             (''records'', Prim (JNum (Finite 9))),
                             (''workspace'', Prim (JStr ''other''))])"

definition row_unnamed :: item where
  "row_unnamed = Item 5 (props [(''id'', Prim (JNum (Finite 5))),
                               (''records'', Prim (JNum (Finite 1)))])"

definition table_example :: BaseTableInfo where
  "table_example =
     \<lparr>data = [row_alpha, row_beta, row_alphabet, row_gamma], searchOn = Some ''name'',
      sortedOrder = ''desc'', sortedByField = Some ''records'', querySearch = Some ''A'',
      sortOrder = ''desc'', sortedBy = Some ''records'',
      filters = [(''workspace'', [FStr ''team'', FStr ''lab''])]\<rparr>"

text \<open>
  An engine to evaluate the examples with. The examples do not consult it: none of
  their strings is converted to a number, their numbers are safe integers, and their
  comparators are consistent.
\<close>

definition example_engine :: engine where
  "example_engine =
     \<lparr>StringToNumber = (\<lambda>s. NaN), NumberToString = (\<lambda>r. []), sort_order = (\<lambda>cmp xs. xs)\<rparr>"

section \<open>The active-learning notebook\<close>

text \<open>
  Python exceptions. \<open>ClientError\<close> stands for an exception of the annotation client (a
  subclass of \<open>Exception\<close>). \<open>KeyboardInterrupt\<close>, \<open>SystemExit\<close> and \<open>GeneratorExit\<close>
  derive from \<open>BaseException\<close> only, so \<open>except Exception\<close> does not catch them. Every
  other exception is given by the name of its class and by whether the class derives
  from \<open>Exception\<close>.
\<close>

datatype py_exception =
  ValueError | KeyError | OSError | ClientError | KeyboardInterrupt | SystemExit
  | GeneratorExit | Other string bool


text \<open>
  A text classification record of the client, with the attributes the notebook reads
  and writes. A prediction is the list of (label, score) pairs; scores are modelled as
  rationals, \<open>0.9\<close> being the number the program writes so.
\<close>

record TextClassificationRecord =
  rec_text :: string
  prediction :: "(string \<times> rat) list option"
  annotation :: "string option"
  status :: string
  metadata :: "(string \<times> int) list"


definition CERTAINTY_THRESHOLD :: rat where
  "CERTAINTY_THRESHOLD = 9 / 10"

text \<open>
  \<open>max(pred, key=lambda item: item[1])\<close>: the first item with the greatest score;
  \<open>ValueError\<close> on an empty sequence.
\<close>

fun py_max :: "(string \<times> rat) list \<Rightarrow> py_exception + (string \<times> rat)" where
  "py_max [] = Inl ValueError"
| "py_max (x # xs) = Inr (foldl (\<lambda>m y. if snd m < snd y then y else m) x xs)"

text \<open>
  \<^verbatim>\<open>
  def evaluate_records(records, idx = 0):
      texts = [rec.text for rec in records]
      predictions = [list(pred.items()) for pred in classifier.pipe(texts)]
      for pred, rec in zip(predictions, records):
          max_score = max(pred, key=lambda item: item[1])
          if max_score[1] > CERTAINTY_THRESHOLD:
              rec.annotation = max_score[0]
              rec.status = "Validated"
          rec.prediction = pred
          rec.metadata = {"idx": idx}
      return records
  \<close>
  The classifier is external: \<open>pipe\<close> is a parameter. The loop ends with the shorter of
  the two lists; the records beyond it are returned as they are.
\<close>

definition evaluate_record ::
  "int \<Rightarrow> (string \<times> rat) list \<Rightarrow> TextClassificationRecord
   \<Rightarrow> py_exception + TextClassificationRecord" where
  "evaluate_record idx pred rec =
     (case py_max pred of
        Inl e \<Rightarrow> Inl e
      | Inr max_score \<Rightarrow>
          (let rec1 = (if snd max_score > CERTAINTY_THRESHOLD
                       then rec\<lparr>annotation := Some (fst max_score), status := ''Validated''\<rparr>
                       else rec)
           in Inr (rec1\<lparr>prediction := Some pred, metadata := [(''idx'', idx)]\<rparr>)))"

fun evaluate_loop ::
  "int \<Rightarrow> (string \<times> rat) list list \<Rightarrow> TextClassificationRecord list
   \<Rightarrow> py_exception + TextClassificationRecord list" where
  "evaluate_loop idx (pred # preds) (rec # recs) =
     (case evaluate_record idx pred rec of
        Inl e \<Rightarrow> Inl e
      | Inr rec' \<Rightarrow> (case evaluate_loop idx preds recs of
                       Inl e \<Rightarrow> Inl e
                     | Inr recs' \<Rightarrow> Inr (rec' # recs')))"
| "evaluate_loop idx [] recs = Inr recs"
| "evaluate_loop idx preds [] = Inr []"

definition evaluate_records ::
  "(string list \<Rightarrow> (string \<times> rat) list list) \<Rightarrow> TextClassificationRecord list \<Rightarrow> int
   \<Rightarrow> py_exception + TextClassificationRecord list" where
  "evaluate_records pipe records idx =
     (let texts = map rec_text records;
          predictions = pipe texts
      in evaluate_loop idx predictions records)"

text \<open>
  What \<open>evaluate_records\<close> is specified to do to one record \<open>rec\<close>, giving \<open>rec'\<close>, from
  its prediction \<open>pred\<close>: the top score is the greatest score of the prediction.
\<close>

definition top_score :: "(string \<times> rat) list \<Rightarrow> rat" where
  "top_score pred = Max (snd ` set pred)"

definition evaluated ::
  "int \<Rightarrow> (string \<times> rat) list \<Rightarrow> TextClassificationRecord \<Rightarrow> TextClassificationRecord
   \<Rightarrow> bool" where
  "evaluated idx pred rec rec' =
     (prediction rec' = Some pred \<and> metadata rec' = [(''idx'', idx)]
      \<and> rec_text rec' = rec_text rec
      \<and> (CERTAINTY_THRESHOLD < top_score pred \<longrightarrow>
           status rec' = ''Validated''
           \<and> (\<exists>label. annotation rec' = Some label \<and> (label, top_score pred) \<in> set pred))
      \<and> (top_score pred \<le> CERTAINTY_THRESHOLD \<longrightarrow>
           status rec' = status rec \<and> annotation rec' = annotation rec))"

definition example_pipe :: "string list \<Rightarrow> (string \<times> rat) list list" where
  \<comment> \<open>a classifier for the examples: sure of texts that start with \<open>W\<close>, unsure of the others\<close>
  "example_pipe texts =
     map (\<lambda>t. if startsWith t ''W'' then [(''Sports'', 1 / 20), (''World'', 19 / 20)]
              else [(''Sports'', 9 / 10), (''World'', 1 / 10)]) texts"

definition example_records :: "TextClassificationRecord list" where
  "example_records =
     [\<lparr>rec_text = ''World leaders meet'', prediction = None, annotation = None,
       status = ''Default'', metadata = []\<rparr>,
      \<lparr>rec_text = ''Late goal wins the cup'', prediction = None, annotation = None,
       status = ''Default'', metadata = []\<rparr>]"

subsection \<open>Exceptions in the scripts\<close>


fun first_raised :: "(string \<Rightarrow> py_exception option) \<Rightarrow> string list \<Rightarrow> py_exception option" where
  \<comment> \<open>simple statements in sequence: the first exception ends them\<close>
  "first_raised raises [] = None"
| "first_raised raises (s # rest) =
     (case raises s of Some e \<Rightarrow> Some e | None \<Rightarrow> first_raised raises rest)"









section \<open>The backup loop of the data-versioning notebook\<close>

text \<open>
  What the loop does to the outside world is recorded as the list of its actions, in the
  order in which they happen: the world is the trace so far.
\<close>

datatype action =
  Load string | ToPickle string | DvcAdd string | DvcPush | GitCommit | GitPush | Sleep int

record world =
  trace :: "action list"

text \<open>
  What is outside the program, given what has happened so far: whether \<open>rg.load\<close> (with
  \<open>to_pandas\<close>) raises, whether \<open>to_pickle\<close> raises, whether \<open>time.sleep\<close> raises on a
  duration that is not negative (\<open>None\<close>: the call returns), and the list that
  \<open>glob.glob('data/*.pkl', recursive=True)\<close> returns. \<open>os.system\<close> returns the exit status
  of the command and does not raise when the command fails.
\<close>

record externals =
  load_raises :: "world \<Rightarrow> string \<Rightarrow> py_exception option"
  to_pickle_raises :: "world \<Rightarrow> string \<Rightarrow> py_exception option"
  glob :: "world \<Rightarrow> string list"
  sleep_raises :: "world \<Rightarrow> int \<Rightarrow> py_exception option"

definition pkl_path :: "string \<Rightarrow> string" where
  \<comment> \<open>\<open>f"data/{dataset_name}.pkl"\<close>\<close>
  "pkl_path dataset_name = ''data/'' @ dataset_name @ ''.pkl''"

definition time_sleep :: "externals \<Rightarrow> world \<Rightarrow> int \<Rightarrow> py_exception option" where
  \<comment> \<open>\<open>time.sleep(duration)\<close>: \<open>ValueError\<close> on a negative duration\<close>
  "time_sleep ext w duration = (if duration < 0 then Some ValueError else sleep_raises ext w duration)"

text \<open>
  \<^verbatim>\<open>
  def dataset_backupper(datasets: List[str], duration: int=60*60*24):
      while True:
          for dataset_name in datasets:
              ds = rg.load(dataset_name)
              df = ds.to_pandas()
              df.to_pickle(f"data/{dataset_name}.pkl")
          files = glob.glob('data/*.pkl', recursive=True)
          [os.system(f'dvc add {file}') for file in files]
          os.system("dvc push")
          os.system("git commit -m 'update DVC files'")
          os.system("git push")
          time.sleep(duration)
  \<close>
\<close>

fun export_datasets :: "externals \<Rightarrow> string list \<Rightarrow> world \<Rightarrow> py_exception + world" where
  "export_datasets ext [] w = Inr w"
| "export_datasets ext (dataset_name # datasets) w =
     (case load_raises ext w dataset_name of
        Some e \<Rightarrow> Inl e
      | None \<Rightarrow>
          (let w1 = w\<lparr>trace := trace w @ [Load dataset_name]\<rparr>
           in case to_pickle_raises ext w1 dataset_name of
                Some e \<Rightarrow> Inl e
              | None \<Rightarrow>
                  export_datasets ext datasets
                    (w1\<lparr>trace := trace w1 @ [ToPickle (pkl_path dataset_name)]\<rparr>)))"

definition backup_iteration ::
  "externals \<Rightarrow> string list \<Rightarrow> int \<Rightarrow> world \<Rightarrow> py_exception + world" where
  "backup_iteration ext datasets duration w =
     (case export_datasets ext datasets w of
        Inl e \<Rightarrow> Inl e
      | Inr w1 \<Rightarrow>
          (let files = glob ext w1;
               w2 = w1\<lparr>trace := trace w1 @ map DvcAdd files @ [DvcPush, GitCommit, GitPush]\<rparr>
           in case time_sleep ext w2 duration of
                Some e \<Rightarrow> Inl e
              | None \<Rightarrow> Inr (w2\<lparr>trace := trace w2 @ [Sleep duration]\<rparr>)))"

text \<open>
  How a call of \<open>dataset_backupper\<close> can end: by an exception, or by returning. The
  loop \<open>while True\<close> may run forever, which is the value \<open>None\<close>.
\<close>

datatype outcome = Raised py_exception | Returned

partial_function (option) dataset_backupper ::
  "externals \<Rightarrow> string list \<Rightarrow> int \<Rightarrow> world \<Rightarrow> outcome option" where
  "dataset_backupper ext datasets duration w =
     (case backup_iteration ext datasets duration w of
        Inl e \<Rightarrow> Some (Raised e)
      | Inr w' \<Rightarrow> dataset_backupper ext datasets duration w')"

text \<open>The first \<open>n\<close> iterations of the loop.\<close>

fun iterations ::
  "externals \<Rightarrow> string list \<Rightarrow> int \<Rightarrow> nat \<Rightarrow> world \<Rightarrow> py_exception + world" where
  "iterations ext datasets duration 0 w = Inr w"
| "iterations ext datasets duration (Suc n) w =
     (case backup_iteration ext datasets duration w of
        Inl e \<Rightarrow> Inl e
      | Inr w' \<Rightarrow> iterations ext datasets duration n w')"

definition default_duration :: int where
  \<comment> \<open>\<open>duration: int=60*60*24\<close>\<close>
  "default_duration = 60 * 60 * 24"

text \<open>
  The actions of one iteration, in words: every named dataset is loaded and exported to
  \<open>data/<name>.pkl\<close>; then \<open>dvc add\<close> runs on every file that \<open>glob\<close> listed; then come
  \<open>dvc push\<close>, \<open>git commit\<close> and \<open>git push\<close>; then the loop sleeps for the duration.
\<close>

definition exports :: "string list \<Rightarrow> action list" where
  "exports datasets = concat (map (\<lambda>n. [Load n, ToPickle (pkl_path n)]) datasets)"

definition iteration_actions :: "string list \<Rightarrow> string list \<Rightarrow> int \<Rightarrow> action list" where
  "iteration_actions datasets files duration =
     exports datasets @ map DvcAdd files @ [DvcPush, GitCommit, GitPush, Sleep duration]"

definition never_raises :: "externals \<Rightarrow> string list \<Rightarrow> int \<Rightarrow> bool" where
  \<comment> \<open>no call of the loop raises, whatever has happened before\<close>
  "never_raises ext datasets duration =
     ((\<forall>w. \<forall>n\<in>set datasets. load_raises ext w n = None)
      \<and> (\<forall>w. \<forall>n\<in>set datasets. to_pickle_raises ext w n = None)
      \<and> (\<forall>w. sleep_raises ext w duration = None)
      \<and> 0 \<le> duration)"

text \<open>
  An example of the outside: a server that has the named datasets and no other, a data
  directory in which \<open>glob\<close> lists the given files, and calls that otherwise succeed.
\<close>

definition server_with :: "string list \<Rightarrow> string list \<Rightarrow> externals" where
  "server_with names listing =
     \<lparr>load_raises = (\<lambda>w n. if n \<in> set names then None else Some ClientError),
      to_pickle_raises = (\<lambda>w n. None),
      glob = (\<lambda>w. listing),
      sleep_raises = (\<lambda>w d. None)\<rparr>"

definition only_argilla_dvc :: externals where
  "only_argilla_dvc = server_with [''argilla-dvc''] [''data/argilla-dvc.pkl'']"

definition two_datasets_listed_backwards :: externals where
  \<comment> \<open>\<open>glob\<close> lists the files in the order of the directory, here not that of the export\<close>
  "two_datasets_listed_backwards =
     server_with [''argilla-dvc'', ''zingg''] [''data/zingg.pkl'', ''data/argilla-dvc.pkl'']"

lemma str_lt_irrefl: "\<not> str_lt s s"
  by (induction s) auto

lemma str_lt_trans: "str_lt a b \<Longrightarrow> str_lt b c \<Longrightarrow> str_lt a c"
proof (induction a b arbitrary: c rule: str_lt.induct)
  case 1
  then show ?case by simp
next
  case (2 b bs)
  then show ?case by (cases c) simp_all
next
  case (3 a as)
  then show ?case by simp
next
  case (4 a as b bs)
  show ?case
  proof (cases c)
    case Nil
    with 4 show ?thesis by simp
  next
    case (Cons d ds)
    from 4(2) have ab: "(of_char a :: nat) < of_char b \<or> (a = b \<and> str_lt as bs)" by simp
    from 4(3) Cons have bd: "(of_char b :: nat) < of_char d \<or> (b = d \<and> str_lt bs ds)" by simp
    from ab bd 4(1) have "(of_char a :: nat) < of_char d \<or> (a = d \<and> str_lt as ds)"
      by (metis less_trans)
    with Cons show ?thesis by simp
  qed
qed

lemma str_lt_total: "\<not> str_lt a b \<Longrightarrow> \<not> str_lt b a \<Longrightarrow> a = b"
proof (induction a b rule: str_lt.induct)
  case (4 a as b bs)
  from 4(2,3) have "(of_char a :: nat) \<le> of_char b" "(of_char b :: nat) \<le> of_char a"
    by (simp_all add: not_less)
  then have "(of_char a :: nat) = of_char b" by (rule le_antisym)
  then have ab: "a = b" by (simp only: of_char_eq_iff)
  with 4(2,3) have "\<not> str_lt as bs" "\<not> str_lt bs as" by simp_all
  with 4(1) ab show ?case by simp
qed simp_all

lemma str_lt_asym: "str_lt a b \<Longrightarrow> \<not> str_lt b a"
  using str_lt_trans str_lt_irrefl by blast

lemma str_lt_negtrans: "\<not> str_lt b a \<Longrightarrow> \<not> str_lt c b \<Longrightarrow> \<not> str_lt c a"
  using str_lt_trans str_lt_total by blast

lemma num_lt_NaN_right: "\<not> num_lt m NaN"
  by (cases m) simp_all

lemma num_lt_irrefl: "\<not> num_lt n n"
  by (cases n) simp_all

lemma num_lt_asym: "num_lt m n \<Longrightarrow> \<not> num_lt n m"
  by (cases m; cases n) simp_all

lemma num_lt_trans: "num_lt l m \<Longrightarrow> num_lt m n \<Longrightarrow> num_lt l n"
  by (cases l; cases m; cases n) simp_all

lemma num_lt_total: "l \<noteq> NaN \<Longrightarrow> m \<noteq> NaN \<Longrightarrow> \<not> num_lt l m \<Longrightarrow> \<not> num_lt m l \<Longrightarrow> l = m"
  by (cases l; cases m) simp_all

lemma num_lt_negtrans:
  "l \<noteq> NaN \<Longrightarrow> m \<noteq> NaN \<Longrightarrow> n \<noteq> NaN \<Longrightarrow> \<not> num_lt m l \<Longrightarrow> \<not> num_lt n m \<Longrightarrow> \<not> num_lt n l"
  using num_lt_total num_lt_trans by blast

lemma prim_lt_irrefl: "\<not> prim_lt eng p p"
  by (cases p) (simp_all add: str_lt_irrefl num_lt_irrefl)

lemma prim_lt_asym: "prim_lt eng p q \<Longrightarrow> \<not> prim_lt eng q p"
  by (cases p; cases q) (auto dest: str_lt_asym num_lt_asym)

lemma js_lt_irrefl: "\<not> js_lt eng x x"
  by (simp add: js_lt_def prim_lt_irrefl)

lemma js_lt_asym: "js_lt eng x y \<Longrightarrow> \<not> js_lt eng y x"
  unfolding js_lt_def by (rule prim_lt_asym)

lemma prim_lt_StringKind:
  "prim_kind p = StringKind \<Longrightarrow> prim_kind q = StringKind \<Longrightarrow>
   prim_lt eng p q = str_lt (the_str p) (the_str q)"
  by (cases p rule: prim_kind.cases; cases q rule: prim_kind.cases) simp_all

lemma ToNumber_NumberKind:
  "prim_kind p = NumberKind \<Longrightarrow> ToNumber eng p \<noteq> NaN \<and> ToNumber eng p = ToNumber eng' p"
  by (cases p rule: prim_kind.cases) simp_all

lemma prim_lt_NumberKind:
  "prim_kind p = NumberKind \<Longrightarrow> prim_kind q = NumberKind \<Longrightarrow>
   prim_lt eng p q = num_lt (ToNumber eng p) (ToNumber eng q)"
  by (cases p rule: prim_kind.cases; cases q rule: prim_kind.cases) simp_all

lemma prim_lt_UnorderedKind:
  "prim_kind p = UnorderedKind \<Longrightarrow> \<not> prim_lt eng p q \<and> \<not> prim_lt eng q p"
  by (cases p rule: prim_kind.cases; cases q) (simp_all add: num_lt_NaN_right)

lemma prim_lt_trans:
  assumes "prim_kind p = prim_kind q" "prim_kind q = prim_kind r"
    and "prim_lt eng p q" "prim_lt eng q r"
  shows "prim_lt eng p r"
proof (cases "prim_kind p")
  case StringKind
  with assms show ?thesis by (auto simp: prim_lt_StringKind dest: str_lt_trans)
next
  case NumberKind
  with assms show ?thesis by (auto simp: prim_lt_NumberKind dest: num_lt_trans)
next
  case UnorderedKind
  with assms(3) show ?thesis using prim_lt_UnorderedKind by blast
qed

lemma prim_lt_negtrans:
  assumes "prim_kind p = prim_kind q" "prim_kind q = prim_kind r"
    and "\<not> prim_lt eng q p" "\<not> prim_lt eng r q"
  shows "\<not> prim_lt eng r p"
proof (cases "prim_kind p")
  case StringKind
  with assms show ?thesis by (auto simp: prim_lt_StringKind dest: str_lt_negtrans)
next
  case NumberKind
  with assms have k: "prim_kind p = NumberKind" "prim_kind q = NumberKind"
    "prim_kind r = NumberKind" by simp_all
  from assms(3,4) k have "\<not> num_lt (ToNumber eng q) (ToNumber eng p)"
    "\<not> num_lt (ToNumber eng r) (ToNumber eng q)"
    by (simp_all add: prim_lt_NumberKind)
  then have "\<not> num_lt (ToNumber eng r) (ToNumber eng p)"
    using ToNumber_NumberKind[OF k(1), of eng eng] ToNumber_NumberKind[OF k(2), of eng eng]
      ToNumber_NumberKind[OF k(3), of eng eng] num_lt_negtrans by blast
  with k show ?thesis by (simp add: prim_lt_NumberKind)
next
  case UnorderedKind
  then show ?thesis using prim_lt_UnorderedKind by blast
qed

lemma js_lt_trans:
  "kind_of a = kind_of b \<Longrightarrow> kind_of b = kind_of c \<Longrightarrow>
   js_lt eng a b \<Longrightarrow> js_lt eng b c \<Longrightarrow> js_lt eng a c"
  unfolding js_lt_def kind_of_def by (rule prim_lt_trans)

lemma js_lt_negtrans:
  "kind_of a = kind_of b \<Longrightarrow> kind_of b = kind_of c \<Longrightarrow>
   \<not> js_lt eng b a \<Longrightarrow> \<not> js_lt eng c b \<Longrightarrow> \<not> js_lt eng c a"
  unfolding js_lt_def kind_of_def by (rule prim_lt_negtrans)

lemma consistent_total:
  assumes "consistent cmp xs" "a \<in> set xs" "b \<in> set xs" "\<not> cmp a b \<le> 0"
  shows "cmp b a \<le> 0"
proof (rule ccontr)
  assume "\<not> cmp b a \<le> 0"
  with assms(4) have "cmp a b > 0" "cmp b a > 0" by simp_all
  with assms(1-3) have "cmp a a > 0" unfolding consistent_def by blast
  moreover from assms(1,2) have "cmp a a = 0" unfolding consistent_def by blast
  ultimately show False by simp
qed

lemma consistent_less_swap:
  assumes c: "consistent cmp xs" and m: "a \<in> set xs" "b \<in> set xs" and g: "cmp a b > 0"
  shows "cmp b a < 0"
proof -
  from consistent_total[OF c m] g have le: "cmp b a \<le> 0" by simp
  have "cmp b a \<noteq> 0"
  proof
    assume "cmp b a = 0"
    with c m have "cmp a b = 0" unfolding consistent_def by blast
    with g show False by simp
  qed
  with le show ?thesis by simp
qed

lemma consistent_trans:
  assumes c: "consistent cmp xs" and m: "x \<in> set xs" "y \<in> set xs" "z \<in> set xs"
    and xy: "cmp x y \<le> 0" and yz: "cmp y z \<le> 0"
  shows "cmp x z \<le> 0"
proof (rule ccontr)
  assume "\<not> cmp x z \<le> 0"
  then have g: "cmp x z > 0" by simp
  from consistent_less_swap[OF c m(1,3) g] have zx: "cmp z x < 0" .
  from c m have sym: "\<And>a b. a \<in> set xs \<Longrightarrow> b \<in> set xs \<Longrightarrow> cmp a b = 0 \<Longrightarrow> cmp b a = 0"
    and eq: "\<And>a b d. a \<in> set xs \<Longrightarrow> b \<in> set xs \<Longrightarrow> d \<in> set xs \<Longrightarrow>
                cmp a b = 0 \<Longrightarrow> cmp b d = 0 \<Longrightarrow> cmp a d = 0"
    and lt: "\<And>a b d. a \<in> set xs \<Longrightarrow> b \<in> set xs \<Longrightarrow> d \<in> set xs \<Longrightarrow>
                cmp a b < 0 \<Longrightarrow> cmp b d < 0 \<Longrightarrow> cmp a d < 0"
    unfolding consistent_def by blast+
  consider "cmp x y < 0" "cmp y z < 0" | "cmp x y = 0" "cmp y z = 0"
    | "cmp x y < 0" "cmp y z = 0" | "cmp x y = 0" "cmp y z < 0"
    using xy yz by linarith
  then show False
  proof cases
    case 1
    with lt[OF m(1,2,3)] g show False by simp
  next
    case 2
    with eq[OF m(1,2,3)] g show False by simp
  next
    case 3
    from lt[OF m(3,1,2) zx 3(1)] have "cmp z y < 0" .
    moreover from sym[OF m(2,3) 3(2)] have "cmp z y = 0" .
    ultimately show False by simp
  next
    case 4
    from lt[OF m(2,3,1) 4(2) zx] have "cmp y x < 0" .
    moreover from sym[OF m(1,2) 4(1)] have "cmp y x = 0" .
    ultimately show False by simp
  qed
qed

lemma mset_insert_by: "mset (insert_by cmp x ys) = add_mset x (mset ys)"
  by (induction ys) simp_all

lemma mset_stable_sort: "mset (stable_sort cmp xs) = mset xs"
  by (induction xs) (simp_all add: mset_insert_by)

lemma set_insert_by: "set (insert_by cmp x ys) = insert x (set ys)"
  by (induction ys) auto

lemma set_stable_sort: "set (stable_sort cmp xs) = set xs"
  by (induction xs) (simp_all add: set_insert_by)

lemma filter_insert_by:
  assumes "\<And>y. \<not> cmp x y \<le> 0 \<Longrightarrow> key y \<noteq> key x"
  shows "filter (\<lambda>a. key a = k) (insert_by cmp x ys) = filter (\<lambda>a. key a = k) (x # ys)"
proof (induction ys)
  case Nil
  show ?case by simp
next
  case (Cons y ys)
  show ?case
  proof (cases "cmp x y \<le> 0")
    case True
    then show ?thesis by simp
  next
    case False
    then have "key y \<noteq> key x" by (rule assms)
    with False Cons show ?thesis by auto
  qed
qed

lemma filter_stable_sort:
  assumes "\<And>x y. \<not> cmp x y \<le> 0 \<Longrightarrow> key y \<noteq> key x"
  shows "filter (\<lambda>a. key a = k) (stable_sort cmp xs) = filter (\<lambda>a. key a = k) xs"
proof (induction xs)
  case Nil
  show ?case by simp
next
  case (Cons x xs)
  have "filter (\<lambda>a. key a = k) (insert_by cmp x (stable_sort cmp xs))
        = filter (\<lambda>a. key a = k) (x # stable_sort cmp xs)"
    using assms by (rule filter_insert_by)
  with Cons show ?case by simp
qed

lemma sorted_insert_by:
  assumes tot: "\<And>a b. a \<in> S \<Longrightarrow> b \<in> S \<Longrightarrow> \<not> cmp a b \<le> 0 \<Longrightarrow> cmp b a \<le> 0"
    and trans: "\<And>a b c. a \<in> S \<Longrightarrow> b \<in> S \<Longrightarrow> c \<in> S \<Longrightarrow> cmp a b \<le> 0 \<Longrightarrow> cmp b c \<le> 0 \<Longrightarrow> cmp a c \<le> 0"
    and "x \<in> S" "set ys \<subseteq> S" "sorted_wrt (\<lambda>a b. cmp a b \<le> 0) ys"
  shows "sorted_wrt (\<lambda>a b. cmp a b \<le> 0) (insert_by cmp x ys)"
  using assms(3-)
proof (induction ys)
  case Nil
  then show ?case by simp
next
  case (Cons y ys)
  show ?case
  proof (cases "cmp x y \<le> 0")
    case True
    have "cmp x z \<le> 0" if "z \<in> set ys" for z
    proof -
      from Cons.prems that have "cmp y z \<le> 0" "z \<in> S" "y \<in> S" by auto
      with True Cons.prems(1) show ?thesis using trans[of x y z] by simp
    qed
    with True Cons.prems show ?thesis by simp
  next
    case False
    from Cons.prems have yS: "y \<in> S" and ysS: "set ys \<subseteq> S"
      and sy: "\<forall>z\<in>set ys. cmp y z \<le> 0" and sys: "sorted_wrt (\<lambda>a b. cmp a b \<le> 0) ys"
      by simp_all
    from False have yx: "cmp y x \<le> 0" using tot[of x y] Cons.prems(1) yS by simp
    have IH: "sorted_wrt (\<lambda>a b. cmp a b \<le> 0) (insert_by cmp x ys)"
      using Cons.IH Cons.prems(1) ysS sys by simp
    from False yx sy IH show ?thesis by (simp add: set_insert_by)
  qed
qed

lemma sorted_stable_sort:
  assumes tot: "\<And>a b. a \<in> S \<Longrightarrow> b \<in> S \<Longrightarrow> \<not> cmp a b \<le> 0 \<Longrightarrow> cmp b a \<le> 0"
    and trans: "\<And>a b c. a \<in> S \<Longrightarrow> b \<in> S \<Longrightarrow> c \<in> S \<Longrightarrow> cmp a b \<le> 0 \<Longrightarrow> cmp b c \<le> 0 \<Longrightarrow> cmp a c \<le> 0"
    and "set xs \<subseteq> S"
  shows "sorted_wrt (\<lambda>a b. cmp a b \<le> 0) (stable_sort cmp xs)"
  using assms(3)
proof (induction xs)
  case Nil
  show ?case by simp
next
  case (Cons x xs)
  then have IH: "sorted_wrt (\<lambda>a b. cmp a b \<le> 0) (stable_sort cmp xs)" by simp
  from Cons.prems have xS: "x \<in> S" and sS: "set (stable_sort cmp xs) \<subseteq> S"
    by (simp_all add: set_stable_sort)
  have "sorted_wrt (\<lambda>a b. cmp a b \<le> 0) (insert_by cmp x (stable_sort cmp xs))"
  proof (rule sorted_insert_by[where S = S])
    show "\<And>a b. a \<in> S \<Longrightarrow> b \<in> S \<Longrightarrow> \<not> cmp a b \<le> 0 \<Longrightarrow> cmp b a \<le> 0"
      by (rule tot)
    show "\<And>a b c. a \<in> S \<Longrightarrow> b \<in> S \<Longrightarrow> c \<in> S \<Longrightarrow> cmp a b \<le> 0 \<Longrightarrow> cmp b c \<le> 0 \<Longrightarrow> cmp a c \<le> 0"
      by (rule trans)
  qed (rule xS, rule sS, rule IH)
  then show ?case by simp
qed


lemma sorted_stable_sort_consistent:
  assumes "consistent cmp xs"
  shows "sorted_wrt (\<lambda>a b. cmp a b \<le> 0) (stable_sort cmp xs)"
proof (rule sorted_stable_sort[where S = "set xs"])
  show "\<And>a b. a \<in> set xs \<Longrightarrow> b \<in> set xs \<Longrightarrow> \<not> cmp a b \<le> 0 \<Longrightarrow> cmp b a \<le> 0"
    using assms by (rule consistent_total)
  show "\<And>a b c. a \<in> set xs \<Longrightarrow> b \<in> set xs \<Longrightarrow> c \<in> set xs \<Longrightarrow>
          cmp a b \<le> 0 \<Longrightarrow> cmp b c \<le> 0 \<Longrightarrow> cmp a c \<le> 0"
    using assms by (rule consistent_trans)
  show "set xs \<subseteq> set xs" by simp
qed

lemma js_filter_raises:
  "list_ex (\<lambda>x. p x = Inl TypeError) xs \<Longrightarrow> js_filter p xs = Inl TypeError"
proof (induction xs)
  case Nil
  then show ?case by simp
next
  case (Cons x xs)
  show ?case
  proof (cases "p x")
    case (Inl e)
    then show ?thesis by (cases e) simp
  next
    case (Inr b)
    with Cons show ?thesis by simp
  qed
qed

lemma js_filter_pure:
  "\<forall>x\<in>set xs. p x = Inr (q x) \<Longrightarrow> js_filter p xs = Inr (filter q xs)"
  by (induction xs) simp_all

lemma toString_nullish: "nullish v \<Longrightarrow> toString eng v = Inl TypeError"
  by (cases v rule: nullish.cases) simp_all

lemma toString_String:
  assumes "\<not> nullish v"
  shows "toString eng v = Inr (js_String eng v)"
proof (cases v)
  case (Prim p)
  with assms show ?thesis by (cases p) simp_all
next
  case (Obj ob)
  then show ?thesis by simp
qed

lemma matchSearch_raises:
  assumes "querySearch this \<noteq> None" "truthy_str (searchOn this)"
    and "nullish (item_get it (prop_key (searchOn this)))"
  shows "matchSearch eng this it = Inl TypeError"
  using assms by (auto simp: matchSearch_def toString_nullish)

lemma matchSearch_spec:
  assumes "querySearch this = None \<or> \<not> truthy_str (searchOn this)
           \<or> \<not> nullish (item_get it (prop_key (searchOn this)))"
  shows "matchSearch eng this it = Inr (spec_matchSearch eng this it)"
  using assms
  by (auto simp: matchSearch_def spec_matchSearch_def toString_String split: option.splits)

lemma find_first_truthy:
  "(case find P xs of None \<Rightarrow> False | Some f \<Rightarrow> T f)
   = (\<exists>i\<in>set [0..<length xs]. P (xs ! i) \<and> T (xs ! i) \<and> (\<forall>j\<in>set [0..<i]. \<not> P (xs ! j)))"
proof (cases "find P xs")
  case None
  then have "\<And>i. i < length xs \<Longrightarrow> \<not> P (xs ! i)"
    by (simp add: find_None_iff)
  with None show ?thesis by auto
next
  case (Some f)
  then obtain i where i: "i < length xs" "P (xs ! i)" "f = xs ! i" "\<forall>j<i. \<not> P (xs ! j)"
    by (auto simp: find_Some_iff)
  show ?thesis
  proof
    assume "case find P xs of None \<Rightarrow> False | Some f \<Rightarrow> T f"
    with Some i show "\<exists>i\<in>set [0..<length xs]. P (xs ! i) \<and> T (xs ! i)
                        \<and> (\<forall>j\<in>set [0..<i]. \<not> P (xs ! j))"
      by auto
  next
    assume "\<exists>i\<in>set [0..<length xs]. P (xs ! i) \<and> T (xs ! i) \<and> (\<forall>j\<in>set [0..<i]. \<not> P (xs ! j))"
    then obtain k where k: "k < length xs" "P (xs ! k)" "T (xs ! k)" "\<forall>j<k. \<not> P (xs ! j)"
      by auto
    have "k = i"
    proof (rule ccontr)
      assume "k \<noteq> i"
      then consider "k < i" | "i < k" by linarith
      then show False
      proof cases
        case 1
        with i(4) k(2) show False by blast
      next
        case 2
        with k(4) i(2) show False by blast
      qed
    qed
    with k(3) i(3) Some show "case find P xs of None \<Rightarrow> False | Some f \<Rightarrow> T f" by simp
  qed
qed

lemma matchFilter_spec:
  "matchFilter this it key
   = spec_filter_matches (filters_get (filters this) key) (item_get it key)"
proof (cases "item_get it key")
  case (Prim p)
  then show ?thesis
    by (simp add: matchFilter_def spec_filter_matches_def isObject_def list_ex_iff)
next
  case (Obj ob)
  show ?thesis
  proof (cases "obj_plain ob")
    case True
    with Obj show ?thesis
      unfolding matchFilter_def spec_filter_matches_def
      by (simp add: isObject_def selects_def find_first_truthy)
  next
    case False
    with Obj show ?thesis
      by (simp add: matchFilter_def spec_filter_matches_def isObject_def list_ex_iff)
  qed
qed

lemma matchFilters_spec: "matchFilters this = spec_matchFilters this"
  by (rule ext) (simp add: matchFilters_def spec_matchFilters_def matchFilter_spec list_all_iff)

lemma itemComparator_desc:
  "sortedOrder this = ''desc'' \<Longrightarrow>
   (itemComparator eng this a b \<le> 0) = (\<not> js_lt eng (sort_key this a) (sort_key this b))"
  by (simp add: itemComparator_def modifier_def)

lemma itemComparator_asc:
  "sortedOrder this \<noteq> ''desc'' \<Longrightarrow>
   (itemComparator eng this a b \<le> 0) = (\<not> js_lt eng (sort_key this b) (sort_key this a))"
  using js_lt_asym[of eng "sort_key this a" "sort_key this b"]
  by (auto simp: itemComparator_def modifier_def)

lemma itemComparator_pos_keys:
  "\<not> itemComparator eng this a b \<le> 0 \<Longrightarrow> sort_key this b \<noteq> sort_key this a"
  using js_lt_irrefl[of eng "sort_key this a"]
  by (auto simp: itemComparator_def split: if_splits)

lemma itemComparator_zero:
  "(itemComparator eng this a b = 0)
   = (\<not> js_lt eng (sort_key this a) (sort_key this b)
      \<and> \<not> js_lt eng (sort_key this b) (sort_key this a))"
  by (simp add: itemComparator_def modifier_def)

lemma itemComparator_neg:
  "(itemComparator eng this a b < 0)
   = (if sortedOrder this = ''desc'' then js_lt eng (sort_key this b) (sort_key this a)
      else js_lt eng (sort_key this a) (sort_key this b))"
  using js_lt_asym[of eng "sort_key this a" "sort_key this b"]
  by (auto simp: itemComparator_def modifier_def)

lemma itemComparator_pos:
  "(itemComparator eng this a b > 0)
   = (if sortedOrder this = ''desc'' then js_lt eng (sort_key this a) (sort_key this b)
      else js_lt eng (sort_key this b) (sort_key this a))"
  using js_lt_asym[of eng "sort_key this a" "sort_key this b"]
  by (auto simp: itemComparator_def modifier_def)

lemma same_kind_set:
  "same_kind ks \<Longrightarrow> a \<in> set ks \<Longrightarrow> b \<in> set ks \<Longrightarrow> kind_of a = kind_of b"
  by (cases ks) (auto simp: list_all_iff)

lemma consistent_itemComparator:
  assumes sk: "same_kind (map (sort_key this) xs)"
  shows "consistent (itemComparator eng this) xs"
proof -
  have kind: "kind_of (sort_key this a) = kind_of (sort_key this b)"
    if "a \<in> set xs" "b \<in> set xs" for a b
    using same_kind_set[OF sk, of "sort_key this a" "sort_key this b"] that by simp
  have tr: "js_lt eng (sort_key this a) (sort_key this c)"
    if "a \<in> set xs" "b \<in> set xs" "c \<in> set xs"
      "js_lt eng (sort_key this a) (sort_key this b)"
      "js_lt eng (sort_key this b) (sort_key this c)" for a b c
    using js_lt_trans[OF kind[OF that(1,2)] kind[OF that(2,3)] that(4,5)] .
  have nt: "\<not> js_lt eng (sort_key this c) (sort_key this a)"
    if "a \<in> set xs" "b \<in> set xs" "c \<in> set xs"
      "\<not> js_lt eng (sort_key this b) (sort_key this a)"
      "\<not> js_lt eng (sort_key this c) (sort_key this b)" for a b c
    using js_lt_negtrans[OF kind[OF that(1,2)] kind[OF that(2,3)] that(4,5)] .
  have c1: "\<forall>a\<in>set xs. itemComparator eng this a a = 0"
    by (simp add: itemComparator_zero js_lt_irrefl)
  have c2: "\<forall>a\<in>set xs. \<forall>b\<in>set xs.
              itemComparator eng this a b = 0 \<longrightarrow> itemComparator eng this b a = 0"
    by (simp add: itemComparator_zero)
  have c3: "\<forall>a\<in>set xs. \<forall>b\<in>set xs. \<forall>c\<in>set xs.
              itemComparator eng this a b = 0 \<and> itemComparator eng this b c = 0
              \<longrightarrow> itemComparator eng this a c = 0"
  proof (intro ballI impI)
    fix a b c
    assume m: "a \<in> set xs" "b \<in> set xs" "c \<in> set xs"
      and h: "itemComparator eng this a b = 0 \<and> itemComparator eng this b c = 0"
    from h have n: "\<not> js_lt eng (sort_key this a) (sort_key this b)"
      "\<not> js_lt eng (sort_key this b) (sort_key this a)"
      "\<not> js_lt eng (sort_key this b) (sort_key this c)"
      "\<not> js_lt eng (sort_key this c) (sort_key this b)"
      by (simp_all add: itemComparator_zero)
    from nt[OF m(1,2,3) n(2,4)] nt[OF m(3,2,1) n(3,1)]
    show "itemComparator eng this a c = 0" by (simp add: itemComparator_zero)
  qed
  have c4: "\<forall>a\<in>set xs. \<forall>b\<in>set xs. \<forall>c\<in>set xs.
              itemComparator eng this a b < 0 \<and> itemComparator eng this b c < 0
              \<longrightarrow> itemComparator eng this a c < 0"
  proof (intro ballI impI)
    fix a b c
    assume m: "a \<in> set xs" "b \<in> set xs" "c \<in> set xs"
      and h: "itemComparator eng this a b < 0 \<and> itemComparator eng this b c < 0"
    show "itemComparator eng this a c < 0"
    proof (cases "sortedOrder this = ''desc''")
      case True
      with h have "js_lt eng (sort_key this c) (sort_key this b)"
        "js_lt eng (sort_key this b) (sort_key this a)"
        by (simp_all add: itemComparator_neg)
      from tr[OF m(3,2,1) this] True show ?thesis by (simp add: itemComparator_neg)
    next
      case False
      with h have "js_lt eng (sort_key this a) (sort_key this b)"
        "js_lt eng (sort_key this b) (sort_key this c)"
        by (simp_all add: itemComparator_neg)
      from tr[OF m(1,2,3) this] False show ?thesis by (simp add: itemComparator_neg)
    qed
  qed
  have c5: "\<forall>a\<in>set xs. \<forall>b\<in>set xs. \<forall>c\<in>set xs.
              itemComparator eng this a b > 0 \<and> itemComparator eng this b c > 0
              \<longrightarrow> itemComparator eng this a c > 0"
  proof (intro ballI impI)
    fix a b c
    assume m: "a \<in> set xs" "b \<in> set xs" "c \<in> set xs"
      and h: "itemComparator eng this a b > 0 \<and> itemComparator eng this b c > 0"
    show "itemComparator eng this a c > 0"
    proof (cases "sortedOrder this = ''desc''")
      case True
      with h have "js_lt eng (sort_key this a) (sort_key this b)"
        "js_lt eng (sort_key this b) (sort_key this c)"
        by (simp_all add: itemComparator_pos)
      from tr[OF m(1,2,3) this] True show ?thesis by (simp add: itemComparator_pos)
    next
      case False
      with h have "js_lt eng (sort_key this c) (sort_key this b)"
        "js_lt eng (sort_key this b) (sort_key this a)"
        by (simp_all add: itemComparator_pos)
      from tr[OF m(3,2,1) this] False show ?thesis by (simp add: itemComparator_pos)
    qed
  qed
  from c1 c2 c3 c4 c5 show ?thesis unfolding consistent_def by (intro conjI)
qed

lemma js_sort_consistent:
  "consistent cmp xs \<Longrightarrow> js_sort eng cmp xs = stable_sort cmp xs"
  by (simp add: js_sort_def)

lemma js_sort_inconsistent:
  "\<not> consistent cmp xs \<Longrightarrow> js_sort eng cmp xs = sort_order eng cmp xs"
  by (simp add: js_sort_def)

lemma mset_js_sort:
  "consistent cmp xs \<or> permuting eng \<Longrightarrow> mset (js_sort eng cmp xs) = mset xs"
  by (auto simp: js_sort_def permuting_def mset_stable_sort)

lemma descending_stable_sort:
  assumes "consistent (itemComparator eng this) xs" "sortedOrder this = ''desc''"
  shows "descending eng this (stable_sort (itemComparator eng this) xs)"
  using sorted_stable_sort_consistent[OF assms(1)] assms(2)
  by (simp add: descending_def itemComparator_desc)

lemma ascending_stable_sort:
  assumes "consistent (itemComparator eng this) xs" "sortedOrder this \<noteq> ''desc''"
  shows "ascending eng this (stable_sort (itemComparator eng this) xs)"
  using sorted_stable_sort_consistent[OF assms(1)] assms(2)
  by (simp add: ascending_def itemComparator_asc)

lemma stable_stable_sort:
  "filter (\<lambda>a. sort_key this a = k) (stable_sort (itemComparator eng this) xs)
   = filter (\<lambda>a. sort_key this a = k) xs"
  by (rule filter_stable_sort) (rule itemComparator_pos_keys)

lemma filteredResults_raises:
  assumes "search_raises this"
  shows "filteredResults eng this = Inl TypeError"
proof -
  from assms have "list_ex (\<lambda>it. matchSearch eng this it = Inl TypeError) (data this)"
    by (auto simp: search_raises_def list_ex_iff intro: matchSearch_raises)
  then have "js_filter (matchSearch eng this) (data this) = Inl TypeError"
    by (rule js_filter_raises)
  then show ?thesis by (simp add: filteredResults_def)
qed

lemma filteredResults_spec:
  assumes "\<not> search_raises this"
  shows "filteredResults eng this
         = Inr (js_sort eng (itemComparator eng this) (spec_passing eng this))"
proof -
  have "\<forall>it\<in>set (data this). matchSearch eng this it = Inr (spec_matchSearch eng this it)"
  proof
    fix it assume "it \<in> set (data this)"
    with assms have "querySearch this = None \<or> \<not> truthy_str (searchOn this)
           \<or> \<not> nullish (item_get it (prop_key (searchOn this)))"
      by (auto simp: search_raises_def list_ex_iff)
    then show "matchSearch eng this it = Inr (spec_matchSearch eng this it)"
      by (rule matchSearch_spec)
  qed
  then have "js_filter (matchSearch eng this) (data this)
             = Inr (filter (spec_matchSearch eng this) (data this))"
    by (rule js_filter_pure)
  then show ?thesis
    by (simp add: filteredResults_def spec_passing_def matchFilters_spec)
qed

lemma matchSearch_no_searchOn:
  "querySearch this = Some q \<Longrightarrow> searchOn this = None \<Longrightarrow> matchSearch eng this it = Inr False"
  by (simp add: matchSearch_def)

lemma js_sort_Nil: "js_sort eng cmp [] = []"
  by (simp add: js_sort_def consistent_def)

lemma foldl_max_in:
  "foldl (\<lambda>m y. if snd m < snd y then y else m) (x :: string \<times> rat) xs \<in> set (x # xs)"
proof (induction xs arbitrary: x)
  case Nil
  show ?case by simp
next
  case (Cons y ys)
  show ?case using Cons[of x] Cons[of y] by auto
qed

lemma foldl_max_ge:
  "z \<in> set (x # xs) \<Longrightarrow>
   snd z \<le> snd (foldl (\<lambda>m y. if snd m < snd y then y else m) (x :: string \<times> rat) xs)"
proof (induction xs arbitrary: x z)
  case Nil
  then show ?case by simp
next
  case (Cons y ys)
  let ?m = "if snd x < snd y then y else x"
  have m: "snd ?m \<le> snd (foldl (\<lambda>m y. if snd m < snd y then y else m) ?m ys)"
    by (rule Cons.IH) simp
  show ?case
  proof (cases "z \<in> set ys")
    case True
    then have "snd z \<le> snd (foldl (\<lambda>m y. if snd m < snd y then y else m) ?m ys)"
      by (intro Cons.IH) simp
    then show ?thesis by simp
  next
    case False
    with Cons.prems have "z = x \<or> z = y" by auto
    then have "snd z \<le> snd ?m" by auto
    with m show ?thesis by simp
  qed
qed

lemma py_max_top:
  assumes "pred \<noteq> []"
  shows "\<exists>top. py_max pred = Inr top \<and> top \<in> set pred \<and> snd top = top_score pred"
proof -
  from assms obtain x xs where pred: "pred = x # xs" by (cases pred) auto
  define top where "top = foldl (\<lambda>m y. if snd m < snd y then y else m) x xs"
  have mem: "top \<in> set pred" unfolding top_def pred by (rule foldl_max_in)
  have ge: "\<And>z. z \<in> set pred \<Longrightarrow> snd z \<le> snd top"
    unfolding top_def pred by (rule foldl_max_ge)
  have "Max (snd ` set pred) = snd top"
  proof (rule Max_eqI)
    show "finite (snd ` set pred)" by simp
    show "\<And>y. y \<in> snd ` set pred \<Longrightarrow> y \<le> snd top" using ge by auto
    show "snd top \<in> snd ` set pred" using mem by simp
  qed
  then show ?thesis using mem by (simp add: pred top_def top_score_def)
qed

lemma evaluate_record_ok:
  assumes "pred \<noteq> []"
  shows "\<exists>rec'. evaluate_record idx pred rec = Inr rec' \<and> evaluated idx pred rec rec'"
proof -
  from py_max_top[OF assms] obtain top where
    top: "py_max pred = Inr top" "top \<in> set pred" "snd top = top_score pred" by blast
  from top(2,3) have "(fst top, top_score pred) \<in> set pred" by (metis prod.collapse)
  with top(1,3) show ?thesis
    by (auto simp: evaluate_record_def evaluated_def Let_def)
qed

lemma evaluate_loop_ok:
  assumes "length preds = length recs" "\<forall>pred\<in>set preds. pred \<noteq> []"
  shows "\<exists>out. evaluate_loop idx preds recs = Inr out \<and> length out = length recs
          \<and> (\<forall>i<length recs. evaluated idx (preds ! i) (recs ! i) (out ! i))"
  using assms
proof (induction preds recs rule: list_induct2)
  case Nil
  show ?case by simp
next
  case (Cons pred preds rec recs)
  from Cons.prems have "pred \<noteq> []" by simp
  from evaluate_record_ok[OF this, of idx rec] obtain rec' where
    r: "evaluate_record idx pred rec = Inr rec'" "evaluated idx pred rec rec'" by blast
  from Cons.IH Cons.prems obtain out where
    o: "evaluate_loop idx preds recs = Inr out" "length out = length recs"
       "\<forall>i<length recs. evaluated idx (preds ! i) (recs ! i) (out ! i)" by auto
  have "\<forall>i<length (rec # recs).
          evaluated idx ((pred # preds) ! i) ((rec # recs) ! i) ((rec' # out) ! i)"
  proof (intro allI impI)
    fix i assume "i < length (rec # recs)"
    then show "evaluated idx ((pred # preds) ! i) ((rec # recs) ! i) ((rec' # out) ! i)"
      using r(2) o(3) by (cases i) simp_all
  qed
  with r(1) o(1,2) show ?case by simp
qed


lemma first_raised_append:
  "first_raised raises (xs @ ys)
   = (case first_raised raises xs of Some e \<Rightarrow> Some e | None \<Rightarrow> first_raised raises ys)"
  by (induction xs) (simp_all split: option.splits)

lemma first_raised_cong:
  "(\<And>s. s \<in> set xs \<Longrightarrow> raises s = raises' s) \<Longrightarrow> first_raised raises xs = first_raised raises' xs"
  by (induction xs) (simp_all split: option.splits)

lemma export_datasets_trace:
  "export_datasets ext datasets w = Inr w' \<Longrightarrow> trace w' = trace w @ exports datasets"
proof (induction datasets arbitrary: w)
  case Nil
  then show ?case by (simp add: exports_def)
next
  case (Cons n ns)
  from Cons.prems have
    "export_datasets ext ns (w\<lparr>trace := trace w @ [Load n] @ [ToPickle (pkl_path n)]\<rparr>) = Inr w'"
    by (simp add: Let_def split: option.splits)
  from Cons.IH[OF this] show ?case by (simp add: exports_def)
qed

lemma export_datasets_ok:
  assumes "\<forall>w. \<forall>n\<in>set datasets. load_raises ext w n = None"
    "\<forall>w. \<forall>n\<in>set datasets. to_pickle_raises ext w n = None"
  shows "\<exists>w'. export_datasets ext datasets w = Inr w'"
  using assms by (induction datasets arbitrary: w) (simp_all add: Let_def)

lemma backup_iteration_trace:
  assumes "backup_iteration ext datasets duration w = Inr w'"
  shows "trace w' = trace w
           @ iteration_actions datasets (glob ext \<lparr>trace = trace w @ exports datasets\<rparr>) duration"
proof -
  from assms obtain w1 where
    e: "export_datasets ext datasets w = Inr w1"
    and w': "w' = w1\<lparr>trace := trace w1 @ map DvcAdd (glob ext w1)
                          @ [DvcPush, GitCommit, GitPush] @ [Sleep duration]\<rparr>"
    by (auto simp: backup_iteration_def Let_def split: sum.splits option.splits)
  from export_datasets_trace[OF e] have t: "trace w1 = trace w @ exports datasets" .
  then have "w1 = \<lparr>trace = trace w @ exports datasets\<rparr>" by (cases w1) simp
  with w' t show ?thesis by (simp add: iteration_actions_def)
qed

lemma backup_iteration_ok:
  assumes "never_raises ext datasets duration"
  shows "\<exists>w'. backup_iteration ext datasets duration w = Inr w'"
proof -
  from assms have l: "\<forall>w. \<forall>n\<in>set datasets. load_raises ext w n = None"
    and p: "\<forall>w. \<forall>n\<in>set datasets. to_pickle_raises ext w n = None"
    and s: "\<forall>w. sleep_raises ext w duration = None" "0 \<le> duration"
    unfolding never_raises_def by blast+
  from export_datasets_ok[OF l p] obtain w1 where
    "export_datasets ext datasets w = Inr w1" by blast
  with s show ?thesis
    by (simp add: backup_iteration_def Let_def time_sleep_def)
qed

lemma iterations_ok:
  assumes "never_raises ext datasets duration"
  shows "\<exists>w'. iterations ext datasets duration n w = Inr w'"
proof (induction n arbitrary: w)
  case 0
  show ?case by simp
next
  case (Suc n)
  from backup_iteration_ok[OF assms] obtain w1 where
    "backup_iteration ext datasets duration w = Inr w1" by blast
  with Suc[of w1] show ?case by simp
qed

lemma iterations_trace:
  "iterations ext datasets duration n w = Inr w' \<Longrightarrow>
   \<exists>listings. length listings = n
     \<and> trace w' = trace w
         @ concat (map (\<lambda>files. iteration_actions datasets files duration) listings)"
proof (induction n arbitrary: w)
  case 0
  then show ?case by simp
next
  case (Suc n)
  from Suc.prems obtain w1 where
    b: "backup_iteration ext datasets duration w = Inr w1"
    and i: "iterations ext datasets duration n w1 = Inr w'"
    by (auto split: sum.splits)
  from Suc.IH[OF i] obtain listings where
    l: "length listings = n"
      "trace w' = trace w1
         @ concat (map (\<lambda>files. iteration_actions datasets files duration) listings)"
    by blast
  let ?first = "glob ext \<lparr>trace = trace w @ exports datasets\<rparr>"
  from backup_iteration_trace[OF b] l
  have "length (?first # listings) = Suc n
        \<and> trace w' = trace w
            @ concat (map (\<lambda>files. iteration_actions datasets files duration) (?first # listings))"
    by simp
  then show ?case by blast
qed

lemma dataset_backupper_not_Returned:
  "dataset_backupper ext datasets duration w \<noteq> Some Returned"
proof
  assume r: "dataset_backupper ext datasets duration w = Some Returned"
  have "Returned \<noteq> Returned"
  proof (rule dataset_backupper.raw_induct[where P = "\<lambda>ext datasets duration w y. y \<noteq> Returned",
          OF _ r])
    fix backupper ext datasets duration w y
    assume IH: "\<And>ext datasets duration w y.
                 backupper ext datasets duration w = Some y \<Longrightarrow> y \<noteq> Returned"
      and step: "(case backup_iteration ext datasets duration w of
                    Inl e \<Rightarrow> Some (Raised e)
                  | Inr w' \<Rightarrow> backupper ext datasets duration w') = Some y"
    show "y \<noteq> Returned"
    proof (cases "backup_iteration ext datasets duration w")
      case (Inl e)
      with step show ?thesis by auto
    next
      case (Inr w')
      with step have "backupper ext datasets duration w' = Some y" by simp
      then show ?thesis by (rule IH)
    qed
  qed
  then show False by simp
qed

lemma dataset_backupper_diverges:
  assumes ok: "never_raises ext datasets duration"
  shows "dataset_backupper ext datasets duration w = None"
proof (rule ccontr)
  assume "dataset_backupper ext datasets duration w \<noteq> None"
  then obtain y where r: "dataset_backupper ext datasets duration w = Some y" by auto
  have "\<not> never_raises ext datasets duration"
  proof (rule dataset_backupper.raw_induct[where P = "\<lambda>ext datasets duration w y.
            \<not> never_raises ext datasets duration", OF _ r])
    fix backupper ext datasets duration w y
    assume IH: "\<And>ext datasets duration w y.
                 backupper ext datasets duration w = Some y \<Longrightarrow>
                 \<not> never_raises ext datasets duration"
      and step: "(case backup_iteration ext datasets duration w of
                    Inl e \<Rightarrow> Some (Raised e)
                  | Inr w' \<Rightarrow> backupper ext datasets duration w') = Some y"
    show "\<not> never_raises ext datasets duration"
    proof
      assume ok': "never_raises ext datasets duration"
      then obtain w1 where "backup_iteration ext datasets duration w = Inr w1"
        using backup_iteration_ok[of ext datasets duration w] by blast
      with step have "backupper ext datasets duration w1 = Some y" by simp
      from IH[OF this] ok' show False by blast
    qed
  qed
  with ok show False by blast
qed

lemma dataset_backupper_raises:
  "iterations ext datasets duration n w = Inr w' \<Longrightarrow>
   backup_iteration ext datasets duration w' = Inl e \<Longrightarrow>
   dataset_backupper ext datasets duration w = Some (Raised e)"
proof (induction n arbitrary: w)
  case 0
  then show ?case by (subst dataset_backupper.simps) simp
next
  case (Suc n)
  from Suc.prems(1) obtain w1 where
    b: "backup_iteration ext datasets duration w = Inr w1"
    and i: "iterations ext datasets duration n w1 = Inr w'"
    by (auto split: sum.splits)
  from Suc.IH[OF i Suc.prems(2)] b show ?case
    by (subst dataset_backupper.simps) simp
qed

section \<open>Theorems\<close>

text \<open>
  C1, amended. When \<open>querySearch\<close> is defined, \<open>searchOn\<close> is a non-empty string and some
  item of \<open>data\<close> has \<open>undefined\<close> or \<open>null\<close> under \<open>searchOn\<close>, computing \<open>filteredResults\<close>
  and \<open>tableIsEmpty\<close> throws a \<open>TypeError\<close>. On every other input \<open>filteredResults\<close>
  returns an array and \<open>tableIsEmpty\<close> holds iff that array is empty. The array is made
  from the passing rows: the data filtered first by the search predicate (an item
  passes iff \<open>querySearch\<close> is undefined, or \<open>searchOn\<close> is set and
  \<open>String(item[searchOn]).toLowerCase()\<close> contains \<open>querySearch.toLowerCase()\<close>), then so
  that every active column filter matches the item. When the comparator of
  \<open>item[sortedBy]\<close> values is consistent on the passing rows, the array is a permutation
  of them in which rows with the same sort value keep their order, descending when
  \<open>sortedOrder\<close> is \<open>"desc"\<close> and ascending for every other value. When the comparator is
  not consistent, the array is the order that the engine's sort gives the passing rows,
  a permutation of them if the engine's sort permutes. The comparator is consistent
  when the sort values of the passing rows are all strings, or all numbers other than
  NaN (\<open>null\<close> and the booleans counting as numbers), or all \<open>undefined\<close> or NaN.
\<close>

theorem filteredResults_amended:
  "(search_raises this \<longrightarrow>
      filteredResults eng this = Inl TypeError \<and> tableIsEmpty eng this = Inl TypeError)
   \<and> (\<not> search_raises this \<longrightarrow>
      (\<exists>rs. filteredResults eng this = Inr rs \<and> tableIsEmpty eng this = Inr (rs = [])
         \<and> (consistent (itemComparator eng this) (spec_passing eng this) \<longrightarrow>
              mset rs = mset (spec_passing eng this)
              \<and> (\<forall>k. filter (\<lambda>a. sort_key this a = k) rs
                      = filter (\<lambda>a. sort_key this a = k) (spec_passing eng this))
              \<and> (sortedOrder this = ''desc'' \<longrightarrow> descending eng this rs)
              \<and> (sortedOrder this \<noteq> ''desc'' \<longrightarrow> ascending eng this rs))
         \<and> (\<not> consistent (itemComparator eng this) (spec_passing eng this) \<longrightarrow>
              rs = sort_order eng (itemComparator eng this) (spec_passing eng this)
              \<and> (permuting eng \<longrightarrow> mset rs = mset (spec_passing eng this)))))
   \<and> (same_kind (map (sort_key this) (spec_passing eng this)) \<longrightarrow>
        consistent (itemComparator eng this) (spec_passing eng this))"
proof (intro conjI impI)
  let ?cmp = "itemComparator eng this" and ?ps = "spec_passing eng this"
  show "filteredResults eng this = Inl TypeError" if "search_raises this"
    using that by (rule filteredResults_raises)
  show "tableIsEmpty eng this = Inl TypeError" if "search_raises this"
    using that by (simp add: filteredResults_raises tableIsEmpty_def)
  show "consistent ?cmp ?ps" if "same_kind (map (sort_key this) ?ps)"
    using that by (rule consistent_itemComparator)
  show "\<exists>rs. filteredResults eng this = Inr rs \<and> tableIsEmpty eng this = Inr (rs = [])
         \<and> (consistent ?cmp ?ps \<longrightarrow>
              mset rs = mset ?ps
              \<and> (\<forall>k. filter (\<lambda>a. sort_key this a = k) rs = filter (\<lambda>a. sort_key this a = k) ?ps)
              \<and> (sortedOrder this = ''desc'' \<longrightarrow> descending eng this rs)
              \<and> (sortedOrder this \<noteq> ''desc'' \<longrightarrow> ascending eng this rs))
         \<and> (\<not> consistent ?cmp ?ps \<longrightarrow>
              rs = sort_order eng ?cmp ?ps
              \<and> (permuting eng \<longrightarrow> mset rs = mset ?ps))"
    if n: "\<not> search_raises this"
  proof (intro exI conjI impI allI)
    show "filteredResults eng this = Inr (js_sort eng ?cmp ?ps)"
      using n by (rule filteredResults_spec)
    then show "tableIsEmpty eng this = Inr (js_sort eng ?cmp ?ps = [])"
      by (simp add: tableIsEmpty_def)
    show "mset (js_sort eng ?cmp ?ps) = mset ?ps" if "consistent ?cmp ?ps"
      using that by (simp add: js_sort_consistent mset_stable_sort)
    show "filter (\<lambda>a. sort_key this a = k) (js_sort eng ?cmp ?ps)
          = filter (\<lambda>a. sort_key this a = k) ?ps" if "consistent ?cmp ?ps" for k
      using that by (simp add: js_sort_consistent stable_stable_sort)
    show "descending eng this (js_sort eng ?cmp ?ps)"
      if "consistent ?cmp ?ps" "sortedOrder this = ''desc''"
      using descending_stable_sort[OF that] that(1) by (simp add: js_sort_consistent)
    show "ascending eng this (js_sort eng ?cmp ?ps)"
      if "consistent ?cmp ?ps" "sortedOrder this \<noteq> ''desc''"
      using ascending_stable_sort[OF that] that(1) by (simp add: js_sort_consistent)
    show "js_sort eng ?cmp ?ps = sort_order eng ?cmp ?ps" if "\<not> consistent ?cmp ?ps"
      using that by (rule js_sort_inconsistent)
    show "mset (js_sort eng ?cmp ?ps) = mset ?ps" if "\<not> consistent ?cmp ?ps" "permuting eng"
      using that by (simp add: js_sort_inconsistent permuting_def)
  qed
qed

theorem filteredResults_amended_witness:
  "\<not> search_raises table_example
   \<and> same_kind (map (sort_key table_example) (spec_passing example_engine table_example))
   \<and> consistent (itemComparator example_engine table_example)
        (spec_passing example_engine table_example)
   \<and> sortedOrder table_example = ''desc''
   \<and> map item_ident (spec_passing example_engine table_example) = [1, 2, 3]
   \<and> (\<exists>rs. filteredResults example_engine table_example = Inr rs
          \<and> tableIsEmpty example_engine table_example = Inr False
          \<and> map item_ident rs = [2, 1, 3]
          \<and> mset rs = mset (spec_passing example_engine table_example)
          \<and> filter (\<lambda>a. sort_key table_example a = Prim (JNum (Finite 5))) rs
              = filter (\<lambda>a. sort_key table_example a = Prim (JNum (Finite 5)))
                  (spec_passing example_engine table_example)
          \<and> descending example_engine table_example rs)"
proof -
  let ?ps = "spec_passing example_engine table_example"
  have nr: "\<not> search_raises table_example"
    by code_simp
  have sk: "same_kind (map (sort_key table_example) ?ps)"
    by code_simp
  have so: "sortedOrder table_example = ''desc''"
    by (simp add: table_example_def)
  have ps: "map item_ident ?ps = [1, 2, 3]"
    by code_simp
  have ids: "(case filteredResults example_engine table_example of
                Inl e \<Rightarrow> [] | Inr rs \<Rightarrow> map item_ident rs) = [2, 1, 3]"
    by code_simp
  note amended = filteredResults_amended[where this = table_example and eng = example_engine]
  from amended sk have con: "consistent (itemComparator example_engine table_example) ?ps"
    by (rule_tac mp, rule_tac conjunct2, rule_tac conjunct2)
  from amended nr obtain rs where
    rs: "filteredResults example_engine table_example = Inr rs"
    and em: "tableIsEmpty example_engine table_example = Inr (rs = [])"
    and co: "consistent (itemComparator example_engine table_example) ?ps \<longrightarrow>
              mset rs = mset ?ps
              \<and> (\<forall>k. filter (\<lambda>a. sort_key table_example a = k) rs
                      = filter (\<lambda>a. sort_key table_example a = k) ?ps)
              \<and> (sortedOrder table_example = ''desc'' \<longrightarrow> descending example_engine table_example rs)
              \<and> (sortedOrder table_example \<noteq> ''desc'' \<longrightarrow> ascending example_engine table_example rs)"
    by blast
  from ids rs have i: "map item_ident rs = [2, 1, 3]" by simp
  then have ne: "rs \<noteq> []" by auto
  from co con so have
    m: "mset rs = mset ?ps"
    and st: "filter (\<lambda>a. sort_key table_example a = Prim (JNum (Finite 5))) rs
              = filter (\<lambda>a. sort_key table_example a = Prim (JNum (Finite 5))) ?ps"
    and d: "descending example_engine table_example rs"
    by blast+
  from rs em ne i m st d have
    "\<exists>rs. filteredResults example_engine table_example = Inr rs
          \<and> tableIsEmpty example_engine table_example = Inr False
          \<and> map item_ident rs = [2, 1, 3]
          \<and> mset rs = mset ?ps
          \<and> filter (\<lambda>a. sort_key table_example a = Prim (JNum (Finite 5))) rs
              = filter (\<lambda>a. sort_key table_example a = Prim (JNum (Finite 5))) ?ps
          \<and> descending example_engine table_example rs"
    by (intro exI[of _ rs]) simp
  with nr sk con so ps show ?thesis by (intro conjI)
qed

text \<open>
  The claim as stated fails on a row that has no value under \<open>searchOn\<close>: with the one
  row \<open>{id: 5, records: 1}\<close>, \<open>searchOn\<close> \<open>"name"\<close> and \<open>querySearch\<close> \<open>"un"\<close> the code throws,
  where \<open>String(undefined)\<close> contains \<open>"un"\<close> and the claimed result is the row.
\<close>

theorem filteredResults_counterexample:
  "filteredResults example_engine
     \<lparr>data = [row_unnamed], searchOn = Some ''name'', sortedOrder = ''desc'',
      sortedByField = None, querySearch = Some ''un'', sortOrder = ''desc'',
      sortedBy = Some ''records'', filters = []\<rparr> = Inl TypeError
   \<and> map item_ident (spec_passing example_engine
        \<lparr>data = [row_unnamed], searchOn = Some ''name'', sortedOrder = ''desc'',
         sortedByField = None, querySearch = Some ''un'', sortOrder = ''desc'',
         sortedBy = Some ''records'', filters = []\<rparr>) = [5]"
proof -
  let ?t = "\<lparr>data = [row_unnamed], searchOn = Some ''name'', sortedOrder = ''desc'',
      sortedByField = None, querySearch = Some ''un'', sortOrder = ''desc'',
      sortedBy = Some ''records'', filters = []\<rparr>"
  have "isl (filteredResults example_engine ?t)"
    by code_simp
  then obtain e where "filteredResults example_engine ?t = Inl e"
    by (auto simp: isl_def)
  then have "filteredResults example_engine ?t = Inl TypeError"
    by (cases e) simp
  moreover have "map item_ident (spec_passing example_engine ?t) = [5]"
    by code_simp
  ultimately show ?thesis by simp
qed

text \<open>
  C2. When the classifier returns one non-empty prediction per record,
  \<open>evaluate_records\<close> returns every record with its prediction set to the classifier's
  score list and its metadata set to \<open>{"idx": idx}\<close>; a record whose top score is
  strictly above the certainty threshold 0.9 gets status \<open>"Validated"\<close> and a label of
  that top score as annotation; a record whose top score is at or below the threshold
  keeps its status and its annotation.
\<close>

theorem evaluate_records_validates_above_threshold:
  assumes "length (pipe (map rec_text records)) = length records"
    and "\<forall>pred\<in>set (pipe (map rec_text records)). pred \<noteq> []"
  shows "\<exists>out. evaluate_records pipe records idx = Inr out \<and> length out = length records
          \<and> (\<forall>i<length records.
                evaluated idx (pipe (map rec_text records) ! i) (records ! i) (out ! i))"
  using evaluate_loop_ok[OF assms, of idx] by (simp add: evaluate_records_def)


theorem evaluate_records_validates_above_threshold_witness:
  "length (example_pipe (map rec_text example_records)) = length example_records
   \<and> [] \<notin> set (example_pipe (map rec_text example_records))
   \<and> (\<exists>out. evaluate_records example_pipe example_records 0 = Inr out
          \<and> length out = 2
          \<and> evaluated 0 (example_pipe (map rec_text example_records) ! 0)
               (example_records ! 0) (out ! 0)
          \<and> evaluated 0 (example_pipe (map rec_text example_records) ! 1)
               (example_records ! 1) (out ! 1))"
proof -
  have h1: "length (example_pipe (map rec_text example_records)) = length example_records"
    by (simp add: example_pipe_def)
  have h2: "\<forall>pred\<in>set (example_pipe (map rec_text example_records)). pred \<noteq> []"
    by (auto simp: example_pipe_def)
  have n: "length example_records = 2"
    by (simp add: example_records_def)
  from evaluate_records_validates_above_threshold [of example_pipe example_records 0] h1 h2
  obtain out where
    "evaluate_records example_pipe example_records 0 = Inr out"
    "length out = length example_records"
    "\<forall>i<length example_records.
       evaluated 0 (example_pipe (map rec_text example_records) ! i)
         (example_records ! i) (out ! i)"
    by blast
  with n h1 h2 show ?thesis by auto
qed




text \<open>
  C5, amended. \<open>dataset_backupper\<close> never returns normally: the loop has no \<open>break\<close> and
  no \<open>return\<close>, and the duration defaults to \<open>60*60*24 = 86400\<close> seconds. The iterations
  that complete each load and export every named dataset to \<open>data/<name>.pkl\<close>, in the
  order of the argument, run \<open>dvc add\<close> on the files that \<open>glob\<close> listed, run \<open>dvc push\<close>,
  \<open>git commit\<close> and \<open>git push\<close>, and sleep for the duration. When no call raises (\<open>rg.load\<close>
  and \<open>to_pickle\<close> succeed on the named datasets, \<open>time.sleep\<close> succeeds and the duration
  is not negative), every iteration completes and is followed by another, and the call
  runs forever. An exception raised in an iteration propagates and ends the loop; on a
  negative duration that is the \<open>ValueError\<close> of \<open>time.sleep\<close>, at the end of the first
  iteration.
\<close>

theorem dataset_backupper_never_returns:
  "dataset_backupper ext datasets duration w \<noteq> Some Returned
   \<and> default_duration = 86400
   \<and> (iterations ext datasets duration n w = Inr w' \<longrightarrow>
        (\<exists>listings. length listings = n
           \<and> trace w' = trace w
               @ concat (map (\<lambda>files. iteration_actions datasets files duration) listings)))
   \<and> (never_raises ext datasets duration \<longrightarrow>
        dataset_backupper ext datasets duration w = None
        \<and> (\<forall>n. \<exists>w'. iterations ext datasets duration n w = Inr w'))
   \<and> (iterations ext datasets duration n w = Inr w'
       \<and> backup_iteration ext datasets duration w' = Inl e \<longrightarrow>
        dataset_backupper ext datasets duration w = Some (Raised e))
   \<and> (duration < 0 \<and> export_datasets ext datasets w = Inr w' \<longrightarrow>
        dataset_backupper ext datasets duration w = Some (Raised ValueError))"
proof (intro conjI impI allI)
  show "dataset_backupper ext datasets duration w \<noteq> Some Returned"
    by (rule dataset_backupper_not_Returned)
  show "default_duration = 86400"
    by (simp add: default_duration_def)
  show "\<exists>listings. length listings = n
           \<and> trace w' = trace w
               @ concat (map (\<lambda>files. iteration_actions datasets files duration) listings)"
    if "iterations ext datasets duration n w = Inr w'"
    using that by (rule iterations_trace)
  show "dataset_backupper ext datasets duration w = None"
    if "never_raises ext datasets duration"
    using that by (rule dataset_backupper_diverges)
  show "\<exists>w'. iterations ext datasets duration n w = Inr w'"
    if "never_raises ext datasets duration" for n
    using that by (rule iterations_ok)
  show "dataset_backupper ext datasets duration w = Some (Raised e)"
    if "iterations ext datasets duration n w = Inr w'
        \<and> backup_iteration ext datasets duration w' = Inl e"
    using that dataset_backupper_raises[of ext datasets duration n w w' e] by blast
  show "dataset_backupper ext datasets duration w = Some (Raised ValueError)"
    if "duration < 0 \<and> export_datasets ext datasets w = Inr w'"
  proof -
    from that have "backup_iteration ext datasets duration w = Inl ValueError"
      by (simp add: backup_iteration_def Let_def time_sleep_def)
    then show ?thesis by (subst dataset_backupper.simps) simp
  qed
qed

theorem dataset_backupper_never_returns_witness:
  "never_raises only_argilla_dvc [''argilla-dvc''] default_duration
   \<and> dataset_backupper only_argilla_dvc [''argilla-dvc''] default_duration \<lparr>trace = []\<rparr> = None
   \<and> iterations only_argilla_dvc [''argilla-dvc''] default_duration 2 \<lparr>trace = []\<rparr>
      = Inr \<lparr>trace = [Load ''argilla-dvc'', ToPickle ''data/argilla-dvc.pkl'',
                      DvcAdd ''data/argilla-dvc.pkl'', DvcPush, GitCommit, GitPush, Sleep 86400,
                      Load ''argilla-dvc'', ToPickle ''data/argilla-dvc.pkl'',
                      DvcAdd ''data/argilla-dvc.pkl'', DvcPush, GitCommit, GitPush,
                      Sleep 86400]\<rparr>
   \<and> (\<exists>listings. length listings = 2
         \<and> [Load ''argilla-dvc'', ToPickle ''data/argilla-dvc.pkl'',
            DvcAdd ''data/argilla-dvc.pkl'', DvcPush, GitCommit, GitPush, Sleep 86400,
            Load ''argilla-dvc'', ToPickle ''data/argilla-dvc.pkl'',
            DvcAdd ''data/argilla-dvc.pkl'', DvcPush, GitCommit, GitPush, Sleep 86400]
           = concat (map (\<lambda>files. iteration_actions [''argilla-dvc''] files default_duration)
                       listings))
   \<and> iterations only_argilla_dvc [''argilla-dvc'', ''zingg''] default_duration 0 \<lparr>trace = []\<rparr>
      = Inr \<lparr>trace = []\<rparr>
   \<and> backup_iteration only_argilla_dvc [''argilla-dvc'', ''zingg''] default_duration
        \<lparr>trace = []\<rparr> = Inl ClientError
   \<and> dataset_backupper only_argilla_dvc [''argilla-dvc'', ''zingg''] default_duration
        \<lparr>trace = []\<rparr> = Some (Raised ClientError)
   \<and> export_datasets only_argilla_dvc [''argilla-dvc''] \<lparr>trace = []\<rparr>
      = Inr \<lparr>trace = [Load ''argilla-dvc'', ToPickle ''data/argilla-dvc.pkl'']\<rparr>
   \<and> dataset_backupper only_argilla_dvc [''argilla-dvc''] (- 1) \<lparr>trace = []\<rparr>
      = Some (Raised ValueError)"
proof -
  have ok: "never_raises only_argilla_dvc [''argilla-dvc''] default_duration"
    by (simp add: never_raises_def only_argilla_dvc_def server_with_def default_duration_def)
  have two: "iterations only_argilla_dvc [''argilla-dvc''] default_duration 2 \<lparr>trace = []\<rparr>
      = Inr \<lparr>trace = [Load ''argilla-dvc'', ToPickle ''data/argilla-dvc.pkl'',
                      DvcAdd ''data/argilla-dvc.pkl'', DvcPush, GitCommit, GitPush, Sleep 86400,
                      Load ''argilla-dvc'', ToPickle ''data/argilla-dvc.pkl'',
                      DvcAdd ''data/argilla-dvc.pkl'', DvcPush, GitCommit, GitPush,
                      Sleep 86400]\<rparr>"
    by code_simp
  have b: "backup_iteration only_argilla_dvc [''argilla-dvc'', ''zingg''] default_duration
        \<lparr>trace = []\<rparr> = Inl ClientError"
    by code_simp
  have x: "export_datasets only_argilla_dvc [''argilla-dvc''] \<lparr>trace = []\<rparr>
      = Inr \<lparr>trace = [Load ''argilla-dvc'', ToPickle ''data/argilla-dvc.pkl'']\<rparr>"
    by code_simp
  from dataset_backupper_never_returns
         [of only_argilla_dvc "[''argilla-dvc'']" default_duration "\<lparr>trace = []\<rparr>" 2
             "\<lparr>trace = [Load ''argilla-dvc'', ToPickle ''data/argilla-dvc.pkl'',
                      DvcAdd ''data/argilla-dvc.pkl'', DvcPush, GitCommit, GitPush, Sleep 86400,
                      Load ''argilla-dvc'', ToPickle ''data/argilla-dvc.pkl'',
                      DvcAdd ''data/argilla-dvc.pkl'', DvcPush, GitCommit, GitPush,
                      Sleep 86400]\<rparr>" ClientError]
       dataset_backupper_never_returns
         [of only_argilla_dvc "[''argilla-dvc'', ''zingg'']" default_duration "\<lparr>trace = []\<rparr>" 0
             "\<lparr>trace = []\<rparr>" ClientError]
       dataset_backupper_never_returns
         [of only_argilla_dvc "[''argilla-dvc'']" "- 1" "\<lparr>trace = []\<rparr>" 0
             "\<lparr>trace = [Load ''argilla-dvc'', ToPickle ''data/argilla-dvc.pkl'']\<rparr>" ClientError]
       ok two b x
  show ?thesis by simp
qed

text \<open>
  The claim as stated fails on a negative duration: the first iteration ends with
  \<open>time.sleep(-1)\<close>, which raises \<open>ValueError\<close>, and no other iteration follows.
\<close>

theorem dataset_backupper_counterexample:
  "dataset_backupper only_argilla_dvc [''argilla-dvc''] (- 1) \<lparr>trace = []\<rparr>
     = Some (Raised ValueError)"
proof -
  have "backup_iteration only_argilla_dvc [''argilla-dvc''] (- 1) \<lparr>trace = []\<rparr>
          = Inl ValueError"
    by code_simp
  then show ?thesis by (subst dataset_backupper.simps) simp
qed

text \<open>
  C6, amended. One iteration of \<open>dataset_backupper\<close> performs its actions in one fixed
  order, that of the program text: every dataset is loaded and exported, in the order
  of the argument list; then comes one \<open>dvc add\<close> per \<open>.pkl\<close> file, in the order in
  which \<open>glob\<close> lists them; then \<open>dvc push\<close>, \<open>git commit\<close>, \<open>git push\<close>, and last the sleep.
  When no call raises and the duration is not negative, the iteration completes.
\<close>

theorem backup_iteration_fixed_order:
  "(backup_iteration ext datasets duration w = Inr w' \<longrightarrow>
      trace w' = trace w @ concat (map (\<lambda>n. [Load n, ToPickle (pkl_path n)]) datasets)
                 @ map DvcAdd
                     (glob ext
                        \<lparr>trace = trace w
                           @ concat (map (\<lambda>n. [Load n, ToPickle (pkl_path n)]) datasets)\<rparr>)
                 @ [DvcPush, GitCommit, GitPush, Sleep duration])
   \<and> ((\<forall>w. \<forall>n\<in>set datasets. load_raises ext w n = None)
       \<and> (\<forall>w. \<forall>n\<in>set datasets. to_pickle_raises ext w n = None)
       \<and> (\<forall>w. sleep_raises ext w duration = None) \<and> 0 \<le> duration \<longrightarrow>
        (\<exists>w'. backup_iteration ext datasets duration w = Inr w'))"
proof (intro conjI impI)
  show "trace w' = trace w @ concat (map (\<lambda>n. [Load n, ToPickle (pkl_path n)]) datasets)
                 @ map DvcAdd
                     (glob ext
                        \<lparr>trace = trace w
                           @ concat (map (\<lambda>n. [Load n, ToPickle (pkl_path n)]) datasets)\<rparr>)
                 @ [DvcPush, GitCommit, GitPush, Sleep duration]"
    if "backup_iteration ext datasets duration w = Inr w'"
    using backup_iteration_trace[OF that] by (simp add: iteration_actions_def exports_def)
  show "\<exists>w'. backup_iteration ext datasets duration w = Inr w'"
    if "(\<forall>w. \<forall>n\<in>set datasets. load_raises ext w n = None)
       \<and> (\<forall>w. \<forall>n\<in>set datasets. to_pickle_raises ext w n = None)
       \<and> (\<forall>w. sleep_raises ext w duration = None) \<and> 0 \<le> duration"
  proof -
    from that have "never_raises ext datasets duration"
      unfolding never_raises_def by blast
    then show ?thesis by (rule backup_iteration_ok)
  qed
qed

theorem backup_iteration_fixed_order_witness:
  "backup_iteration two_datasets_listed_backwards [''argilla-dvc'', ''zingg''] default_duration
     \<lparr>trace = []\<rparr>
     = Inr \<lparr>trace = [Load ''argilla-dvc'', ToPickle ''data/argilla-dvc.pkl'',
                     Load ''zingg'', ToPickle ''data/zingg.pkl'',
                     DvcAdd ''data/zingg.pkl'', DvcAdd ''data/argilla-dvc.pkl'',
                     DvcPush, GitCommit, GitPush, Sleep 86400]\<rparr>
   \<and> glob two_datasets_listed_backwards
        \<lparr>trace = [Load ''argilla-dvc'', ToPickle ''data/argilla-dvc.pkl'',
                  Load ''zingg'', ToPickle ''data/zingg.pkl'']\<rparr>
     = [''data/zingg.pkl'', ''data/argilla-dvc.pkl'']
   \<and> [Load ''argilla-dvc'', ToPickle ''data/argilla-dvc.pkl'',
       Load ''zingg'', ToPickle ''data/zingg.pkl'',
       DvcAdd ''data/zingg.pkl'', DvcAdd ''data/argilla-dvc.pkl'',
       DvcPush, GitCommit, GitPush, Sleep 86400]
     = concat (map (\<lambda>n. [Load n, ToPickle (pkl_path n)]) [''argilla-dvc'', ''zingg''])
       @ map DvcAdd [''data/zingg.pkl'', ''data/argilla-dvc.pkl'']
       @ [DvcPush, GitCommit, GitPush, Sleep default_duration]
   \<and> (\<forall>w. load_raises two_datasets_listed_backwards w ''argilla-dvc'' = None)
   \<and> (\<forall>w. load_raises two_datasets_listed_backwards w ''zingg'' = None)
   \<and> (\<forall>w. to_pickle_raises two_datasets_listed_backwards w ''argilla-dvc'' = None)
   \<and> (\<forall>w. to_pickle_raises two_datasets_listed_backwards w ''zingg'' = None)
   \<and> (\<forall>w. sleep_raises two_datasets_listed_backwards w default_duration = None)
   \<and> 0 \<le> default_duration
   \<and> (\<exists>w'. backup_iteration two_datasets_listed_backwards [''argilla-dvc'', ''zingg'']
              default_duration \<lparr>trace = []\<rparr> = Inr w')"
proof -
  have v: "backup_iteration two_datasets_listed_backwards [''argilla-dvc'', ''zingg'']
             default_duration \<lparr>trace = []\<rparr>
     = Inr \<lparr>trace = [Load ''argilla-dvc'', ToPickle ''data/argilla-dvc.pkl'',
                     Load ''zingg'', ToPickle ''data/zingg.pkl'',
                     DvcAdd ''data/zingg.pkl'', DvcAdd ''data/argilla-dvc.pkl'',
                     DvcPush, GitCommit, GitPush, Sleep 86400]\<rparr>"
    by code_simp
  have ok: "\<forall>w. load_raises two_datasets_listed_backwards w ''argilla-dvc'' = None"
    "\<forall>w. load_raises two_datasets_listed_backwards w ''zingg'' = None"
    "\<forall>w. to_pickle_raises two_datasets_listed_backwards w ''argilla-dvc'' = None"
    "\<forall>w. to_pickle_raises two_datasets_listed_backwards w ''zingg'' = None"
    "\<forall>w. sleep_raises two_datasets_listed_backwards w default_duration = None"
    "0 \<le> default_duration"
    "\<And>w. glob two_datasets_listed_backwards w = [''data/zingg.pkl'', ''data/argilla-dvc.pkl'']"
    by (simp_all add: two_datasets_listed_backwards_def server_with_def default_duration_def)
  from backup_iteration_fixed_order
         [of two_datasets_listed_backwards "[''argilla-dvc'', ''zingg'']" default_duration
             "\<lparr>trace = []\<rparr>"
             "\<lparr>trace = [Load ''argilla-dvc'', ToPickle ''data/argilla-dvc.pkl'',
                        Load ''zingg'', ToPickle ''data/zingg.pkl'',
                        DvcAdd ''data/zingg.pkl'', DvcAdd ''data/argilla-dvc.pkl'',
                        DvcPush, GitCommit, GitPush, Sleep 86400]\<rparr>"]
       v ok
  show ?thesis by (simp add: pkl_path_def default_duration_def)
qed

text \<open>
  The claim as stated fails: on the notebook's own call the actions of an iteration
  come in exactly this order, the export first and \<open>git push\<close> before the sleep.
\<close>

theorem backup_iteration_counterexample:
  "backup_iteration only_argilla_dvc [''argilla-dvc''] default_duration \<lparr>trace = []\<rparr>
     = Inr \<lparr>trace = [Load ''argilla-dvc'', ToPickle ''data/argilla-dvc.pkl'',
                     DvcAdd ''data/argilla-dvc.pkl'', DvcPush, GitCommit, GitPush,
                     Sleep 86400]\<rparr>"
  by code_simp

text \<open>
  C8. Calling \<open>sort(column)\<close> never changes the direction of the ordering that
  \<open>filteredResults\<close> uses: the \<open>sortedOrder\<close> prop and the comparator's modifier are what
  they were, and the comparator after the call is the one of the old instance with
  \<open>sortedBy\<close> set to the column's field. The call assigns \<open>sortedBy\<close> and toggles the
  separate \<open>sortOrder\<close> field, whatever the column.
\<close>

theorem sort_method_keeps_direction:
  "sortedOrder (snd (sort_method col this)) = sortedOrder this
   \<and> modifier (snd (sort_method col this)) = modifier this
   \<and> itemComparator eng (snd (sort_method col this)) a b
       = itemComparator eng (this\<lparr>sortedBy := field col\<rparr>) a b
   \<and> sortedBy (snd (sort_method col this)) = field col
   \<and> sortOrder (snd (sort_method col this)) = (if sortOrder this = ''asc'' then ''desc'' else ''asc'')"
  by (simp add: sort_method_def Let_def modifier_def itemComparator_def sort_key_def)


theorem sort_method_keeps_direction_witness:
  "sortedOrder (snd (sort_method \<lparr>name = ''Name'', field = Some ''name''\<rparr> table_example))
     = ''desc''
   \<and> modifier (snd (sort_method \<lparr>name = ''Name'', field = Some ''name''\<rparr> table_example)) = - 1
   \<and> sortedBy (snd (sort_method \<lparr>name = ''Name'', field = Some ''name''\<rparr> table_example))
     = Some ''name''
   \<and> sortOrder (snd (sort_method \<lparr>name = ''Name'', field = Some ''name''\<rparr> table_example))
     = ''asc''"
  using sort_method_keeps_direction
          [of "\<lparr>name = ''Name'', field = Some ''name''\<rparr>" table_example example_engine
              row_alpha row_beta]
  by (simp add: table_example_def modifier_def)

text \<open>
  C10. If \<open>querySearch\<close> is defined and \<open>searchOn\<close> is undefined, the search predicate
  rejects every item: \<open>filteredResults\<close> is empty and \<open>tableIsEmpty\<close> is true, whatever the
  data and the filters.
\<close>

theorem search_without_searchOn_is_empty:
  assumes "querySearch this = Some q" "searchOn this = None"
  shows "filteredResults eng this = Inr [] \<and> tableIsEmpty eng this = Inr True"
proof -
  have "\<forall>it\<in>set (data this). matchSearch eng this it = Inr False"
    using assms by (simp add: matchSearch_no_searchOn)
  then have "js_filter (matchSearch eng this) (data this) = Inr (filter (\<lambda>it. False) (data this))"
    by (rule js_filter_pure)
  then have "filteredResults eng this = Inr []"
    by (simp add: filteredResults_def js_sort_Nil)
  then show ?thesis by (simp add: tableIsEmpty_def)
qed


theorem search_without_searchOn_is_empty_witness:
  "querySearch (table_example\<lparr>searchOn := None\<rparr>) = Some ''A''
   \<and> searchOn (table_example\<lparr>searchOn := None\<rparr>) = None
   \<and> filteredResults example_engine (table_example\<lparr>searchOn := None\<rparr>) = Inr []
   \<and> tableIsEmpty example_engine (table_example\<lparr>searchOn := None\<rparr>) = Inr True"
proof -
  have q: "querySearch (table_example\<lparr>searchOn := None\<rparr>) = Some ''A''"
    by (simp add: table_example_def)
  have s: "searchOn (table_example\<lparr>searchOn := None\<rparr>) = None"
    by simp
  from search_without_searchOn_is_empty [OF q s, of example_engine] q s
  show ?thesis by simp
qed

text \<open>
  C9. For a BaseButton whose target is \<open>"_blank"\<close>, the computed \<open>newRel\<close> is never empty
  (neither \<open>undefined\<close> nor the empty string): it is the \<open>rel\<close> prop when that prop is
  truthy and \<open>"noopener"\<close> otherwise. For every other target, \<open>newRel\<close> is the \<open>rel\<close> prop
  unchanged.
\<close>

theorem newRel_blank_or_unchanged:
  "(target b = Some ''_blank'' \<longrightarrow>
      newRel b = (if truthy_str (rel b) then rel b else Some ''noopener'')
      \<and> truthy_str (newRel b))
   \<and> (target b \<noteq> Some ''_blank'' \<longrightarrow> newRel b = rel b)"
  by (simp add: newRel_def js_or_def)

theorem newRel_blank_or_unchanged_witness:
  "newRel \<lparr>href = Some ''https://argilla.io'', target = Some ''_blank'', rel = None\<rparr>
     = Some ''noopener''
   \<and> newRel \<lparr>href = Some ''https://argilla.io'', target = Some ''_blank'', rel = Some ''''\<rparr>
     = Some ''noopener''
   \<and> newRel \<lparr>href = Some ''https://argilla.io'', target = Some ''_blank'',
              rel = Some ''nofollow''\<rparr> = Some ''nofollow''
   \<and> newRel \<lparr>href = Some ''https://argilla.io'', target = Some ''_self'', rel = None\<rparr> = None"
  using newRel_blank_or_unchanged
          [of "\<lparr>href = Some ''https://argilla.io'', target = Some ''_blank'', rel = None\<rparr>"]
        newRel_blank_or_unchanged
          [of "\<lparr>href = Some ''https://argilla.io'', target = Some ''_blank'', rel = Some ''''\<rparr>"]
        newRel_blank_or_unchanged
          [of "\<lparr>href = Some ''https://argilla.io'', target = Some ''_blank'',
                rel = Some ''nofollow''\<rparr>"]
        newRel_blank_or_unchanged
          [of "\<lparr>href = Some ''https://argilla.io'', target = Some ''_self'', rel = None\<rparr>"]
  by simp


end
